theory Spec2Isabelle
  imports Main "HOL-Library.AList"
begin

section \<open>JavaScript values and errors\<close>

text \<open>
  The values that reach the store from user code. Functions and subscriber objects are
  compared by reference in the source (\<^verbatim>\<open>indexOf\<close>), so they are references (\<open>ref\<close>);
  plain objects are association lists in the order \<^verbatim>\<open>Object.keys\<close> enumerates them
  (keys that look like array indices, which JavaScript enumerates first, get no special
  treatment). Numbers are integers only, arrays are left out, and a property read on a
  primitive value or on a function gives \<^verbatim>\<open>undefined\<close> (own properties of strings and
  functions are not modelled).
  \<^verbatim>\<open>__DEV__\<close> is a build-time constant that the repository does not define: every
  function that reads it takes it as the parameter \<open>dev\<close>. Console output is not part of
  the state; it is modelled only where a statement below speaks about it.
\<close>

type_synonym ref = nat

datatype jsval =
    JUndefined
  | JNull
  | JBool bool
  | JNum int
  | JStr string
  | JFun ref
  | JObj "(string \<times> jsval) list"

datatype error =
    TypeError
  | ReferenceError
  | AssertionError
  | Thrown jsval

text \<open>\<^verbatim>\<open>!!v\<close>\<close>

fun truthy :: "jsval \<Rightarrow> bool" where
  "truthy JUndefined = False"
| "truthy JNull = False"
| "truthy (JBool b) = b"
| "truthy (JNum n) = (n \<noteq> 0)"
| "truthy (JStr s) = (s \<noteq> [])"
| "truthy (JFun f) = True"
| "truthy (JObj fs) = True"

text \<open>\<^verbatim>\<open>v[k]\<close>: a TypeError on \<^verbatim>\<open>undefined\<close> and \<^verbatim>\<open>null\<close>.\<close>

fun get_prop :: "jsval \<Rightarrow> string \<Rightarrow> error + jsval" where
  "get_prop JUndefined k = Inl TypeError"
| "get_prop JNull k = Inl TypeError"
| "get_prop (JObj fs) k = Inr (case map_of fs k of None \<Rightarrow> JUndefined | Some v \<Rightarrow> v)"
| "get_prop v k = Inr JUndefined"

section \<open>Module (module/module.js)\<close>

text \<open>
  A declaration (\<^verbatim>\<open>rawModule\<close>). \<^verbatim>\<open>getters\<close>, \<^verbatim>\<open>mutations\<close> and \<^verbatim>\<open>actions\<close> may be absent
  (\<open>None\<close>); an absent \<^verbatim>\<open>modules\<close> and an empty one behave alike everywhere, so \<open>modules\<close>
  is a plain list, in enumeration order. The state is a value (\<open>StateValue v\<close>) or a
  function that returns one (\<open>StateFunction v\<close> returns \<open>v\<close>).
\<close>

datatype rawState = StateValue jsval | StateFunction jsval

datatype rawModule = RawModule
  (namespaced_raw: jsval)
  (state_raw: rawState)
  (getters_raw: "(string \<times> jsval) list option")
  (mutations_raw: "(string \<times> jsval) list option")
  (actions_raw: "(string \<times> jsval) list option")
  (modules_raw: "(string \<times> rawModule) list")

text \<open>
  A module keeps in \<^verbatim>\<open>_rawModule\<close> the declaration object it was created from: the object
  itself, not a copy. \<^verbatim>\<open>register\<close> creates the children of a module from the objects under
  \<^verbatim>\<open>modules\<close> of that same declaration, so the declaration a parent keeps has under
  \<^verbatim>\<open>modules\<close> the very objects its children keep, and what \<^verbatim>\<open>Module.update\<close> writes into
  a child's declaration is written into the parent's nested one as well. Nothing reads
  \<^verbatim>\<open>modules\<close> through \<^verbatim>\<open>_rawModule\<close>: \<^verbatim>\<open>register\<close> and \<^verbatim>\<open>update\<close> read it from the declaration
  they are given. A module of the model therefore holds the properties of its declaration
  object that are read or written through \<^verbatim>\<open>_rawModule\<close> (\<open>rawOwn\<close>), and a nested declaration
  is held once, by the child created from it. Every module is taken to keep a declaration
  object of its own: one object from which two modules are created (placed under two
  keys, or registered twice) is outside the model.
\<close>

datatype rawOwn = RawOwn
  (namespaced_own: jsval)
  (state_own: rawState)
  (getters_own: "(string \<times> jsval) list option")
  (mutations_own: "(string \<times> jsval) list option")
  (actions_own: "(string \<times> jsval) list option")

definition own_properties :: "rawModule \<Rightarrow> rawOwn" where
  "own_properties raw =
     RawOwn (namespaced_raw raw) (state_raw raw) (getters_raw raw) (mutations_raw raw) (actions_raw raw)"

datatype module = Module
  (runtime: bool)
  (children: "(string \<times> module) list")
  (rawModule: rawOwn)
  (state: jsval)

text \<open>\<^verbatim>\<open>(typeof rawState === "function" ? rawState() : rawState) || {}\<close>\<close>

definition initial_state :: "rawState \<Rightarrow> jsval" where
  "initial_state rs =
     (let v = (case rs of StateFunction r \<Rightarrow> r | StateValue v \<Rightarrow> v)
      in if truthy v then v else JObj [])"

definition new_Module :: "rawModule \<Rightarrow> bool \<Rightarrow> module" where
  "new_Module raw rt = Module rt [] (own_properties raw) (initial_state (state_raw raw))"

definition namespaced :: "module \<Rightarrow> bool" where
  "namespaced m = truthy (namespaced_own (rawModule m))"

definition addChild :: "string \<Rightarrow> module \<Rightarrow> module \<Rightarrow> module" where
  "addChild key c m = Module (runtime m) (AList.update key c (children m)) (rawModule m) (state m)"

definition removeChild :: "string \<Rightarrow> module \<Rightarrow> module" where
  "removeChild key m = Module (runtime m) (AList.delete key (children m)) (rawModule m) (state m)"

definition getChild :: "module \<Rightarrow> string \<Rightarrow> module option" where
  "getChild m key = map_of (children m) key"

definition hasChild :: "module \<Rightarrow> string \<Rightarrow> bool" where
  "hasChild m key = (key \<in> fst ` set (children m))"

text \<open>\<^verbatim>\<open>Module.update\<close> assigns into the module's declaration object: the namespaced flag
  always, each of the three tables only when the new declaration has it; the state is not
  touched.\<close>

definition Module_update :: "module \<Rightarrow> rawModule \<Rightarrow> module" where
  "Module_update m new =
     Module (runtime m) (children m)
       (RawOwn (namespaced_raw new) (state_own (rawModule m))
          (case getters_raw new of Some g \<Rightarrow> Some g | None \<Rightarrow> getters_own (rawModule m))
          (case mutations_raw new of Some g \<Rightarrow> Some g | None \<Rightarrow> mutations_own (rawModule m))
          (case actions_raw new of Some g \<Rightarrow> Some g | None \<Rightarrow> actions_own (rawModule m)))
       (state m)"

section \<open>ModuleCollection (module/module-collection.js)\<close>

text \<open>
  A collection is its root module. \<^verbatim>\<open>get\<close> is a \<^verbatim>\<open>reduce\<close> whose accumulator is the
  module reached so far or \<^verbatim>\<open>undefined\<close> (\<open>None\<close>); calling \<^verbatim>\<open>getChild\<close> on \<^verbatim>\<open>undefined\<close>
  raises a TypeError.
\<close>

fun get_from :: "module option \<Rightarrow> string list \<Rightarrow> error + module option" where
  "get_from acc [] = Inr acc"
| "get_from None (key # path) = Inl TypeError"
| "get_from (Some m) (key # path) = get_from (getChild m key) path"

definition get :: "module \<Rightarrow> string list \<Rightarrow> error + module option" where
  "get root path = get_from (Some root) path"

text \<open>\<^verbatim>\<open>getNamespace\<close>: the variable \<^verbatim>\<open>module\<close> walks down while the accumulator grows; reading
  \<^verbatim>\<open>namespaced\<close> of a missing child raises a TypeError.\<close>

fun getNamespace_from :: "module \<Rightarrow> string \<Rightarrow> string list \<Rightarrow> error + string" where
  "getNamespace_from m ns [] = Inr ns"
| "getNamespace_from m ns (key # path) =
     (case getChild m key of
        None \<Rightarrow> Inl TypeError
      | Some c \<Rightarrow> getNamespace_from c (ns @ (if namespaced c then key @ ''/'' else '''')) path)"

definition getNamespace :: "module \<Rightarrow> string list \<Rightarrow> error + string" where
  "getNamespace root path = getNamespace_from root '''' path"

text \<open>
  A call either returns or throws, and a throw keeps whatever was changed before it:
  both outcomes carry the state.
\<close>

datatype ('a, 's) result = Return 'a 's | Throw error 's

text \<open>
  \<^verbatim>\<open>assertRawModule\<close>: getters and mutations must be functions, an action a function or an
  object whose \<^verbatim>\<open>handler\<close> is one. \<^verbatim>\<open>typeof null\<close> is \<^verbatim>\<open>"object"\<close>, so a \<^verbatim>\<open>null\<close> action
  raises a TypeError on \<^verbatim>\<open>value.handler\<close> before \<^verbatim>\<open>assert\<close> is reached.
\<close>

fun functionAssert :: "jsval \<Rightarrow> error + bool" where
  "functionAssert (JFun f) = Inr True"
| "functionAssert v = Inr False"

fun objectAssert :: "jsval \<Rightarrow> error + bool" where
  "objectAssert (JFun f) = Inr True"
| "objectAssert JNull = Inl TypeError"
| "objectAssert (JObj fs) =
     Inr (case map_of fs ''handler'' of Some (JFun f) \<Rightarrow> True | _ \<Rightarrow> False)"
| "objectAssert v = Inr False"

fun assert_each :: "(jsval \<Rightarrow> error + bool) \<Rightarrow> (string \<times> jsval) list \<Rightarrow> error option" where
  "assert_each chk [] = None"
| "assert_each chk ((type, v) # rest) =
     (case chk v of
        Inl e \<Rightarrow> Some e
      | Inr ok \<Rightarrow> if ok then assert_each chk rest else Some AssertionError)"

definition assert_table :: "(jsval \<Rightarrow> error + bool) \<Rightarrow> (string \<times> jsval) list option \<Rightarrow> error option" where
  "assert_table chk tbl = (case tbl of None \<Rightarrow> None | Some t \<Rightarrow> assert_each chk t)"

definition assertRawModule :: "rawModule \<Rightarrow> error option" where
  "assertRawModule raw =
     (case assert_table functionAssert (getters_raw raw) of
        Some e \<Rightarrow> Some e
      | None \<Rightarrow>
         (case assert_table functionAssert (mutations_raw raw) of
            Some e \<Rightarrow> Some e
          | None \<Rightarrow> assert_table objectAssert (actions_raw raw)))"

text \<open>
  The source changes a module through a reference that \<^verbatim>\<open>get\<close> returned. Modules are
  values here, so the change is written back along the path: \<open>modify_at path f root\<close> is
  the tree in which the module at \<open>path\<close> has become \<open>f\<close> of itself.
\<close>

fun modify_at :: "string list \<Rightarrow> (module \<Rightarrow> module) \<Rightarrow> module \<Rightarrow> module" where
  "modify_at [] f m = f m"
| "modify_at (key # path) f m =
     (case getChild m key of
        None \<Rightarrow> m
      | Some c \<Rightarrow> addChild key (modify_at path f c) m)"

text \<open>\<^verbatim>\<open>path[path.length - 1]\<close> is \<^verbatim>\<open>undefined\<close> for the empty path, and a property key
  \<^verbatim>\<open>undefined\<close> is the string \<^verbatim>\<open>"undefined"\<close>.\<close>

definition last_key :: "string list \<Rightarrow> string" where
  "last_key path = (if path = [] then ''undefined'' else last path)"

function register :: "bool \<Rightarrow> string list \<Rightarrow> rawModule \<Rightarrow> bool \<Rightarrow> module \<Rightarrow> (unit, module) result"
  and register_children ::
    "bool \<Rightarrow> string list \<Rightarrow> (string \<times> rawModule) list \<Rightarrow> bool \<Rightarrow> module \<Rightarrow> (unit, module) result"
where
  "register dev path raw rt root =
     (case (if dev then assertRawModule raw else None) of
        Some e \<Rightarrow> Throw e root
      | None \<Rightarrow>
         (case (if path = [] then Return () (new_Module raw rt)
                else (case get root (butlast path) of
                        Inl e \<Rightarrow> Throw e root
                      | Inr None \<Rightarrow> Throw TypeError root
                      | Inr (Some parent) \<Rightarrow>
                          Return () (modify_at (butlast path)
                                       (addChild (last path) (new_Module raw rt)) root))) of
            Throw e r \<Rightarrow> Throw e r
          | Return u r \<Rightarrow> register_children dev path (modules_raw raw) rt r))"
| "register_children dev path [] rt root = Return () root"
| "register_children dev path ((key, rawChildModule) # rest) rt root =
     (case register dev (path @ [key]) rawChildModule rt root of
        Throw e r \<Rightarrow> Throw e r
      | Return u r \<Rightarrow> register_children dev path rest rt r)"
  by pat_completeness auto
termination
  by (relation "measure (\<lambda>x. case x of
          Inl (dev, path, raw, rt, root) \<Rightarrow> size raw
        | Inr (dev, path, mods, rt, root) \<Rightarrow> size_list (size_prod (\<lambda>k. 0) size) mods)")
     (auto, case_tac raw, simp)

text \<open>The constructor: \<^verbatim>\<open>this.register([], rawRootModule, false)\<close>. No root exists yet,
  and none is read when the path is empty.\<close>

definition new_ModuleCollection :: "bool \<Rightarrow> rawModule \<Rightarrow> (unit, module) result" where
  "new_ModuleCollection dev rawRootModule =
     register dev [] rawRootModule False (new_Module rawRootModule False)"

definition unregister :: "string list \<Rightarrow> module \<Rightarrow> (unit, module) result" where
  "unregister path root =
     (case get root (butlast path) of
        Inl e \<Rightarrow> Throw e root
      | Inr None \<Rightarrow> Throw TypeError root
      | Inr (Some parent) \<Rightarrow>
         (case getChild parent (last_key path) of
            None \<Rightarrow> Return () root
          | Some child \<Rightarrow>
             if \<not> runtime child then Return () root
             else Return () (modify_at (butlast path) (removeChild (last_key path)) root)))"

definition isRegistered :: "module \<Rightarrow> string list \<Rightarrow> error + bool" where
  "isRegistered root path =
     (case get root (butlast path) of
        Inl e \<Rightarrow> Inl e
      | Inr None \<Rightarrow> Inr False
      | Inr (Some parent) \<Rightarrow> Inr (hasChild parent (last_key path)))"

text \<open>
  The hot-update walk. The state is the target module together with the console: the
  warning for an unknown key is the one output of the collection that a statement below
  mentions. \<^verbatim>\<open>return\<close> inside the \<^verbatim>\<open>for\<close> loop leaves this call only; the caller's loop
  goes on with its next key. The source updates a child in place; here the updated child
  is put back under its key, which changes nothing else of the target.
\<close>

definition new_module_warning :: "string \<Rightarrow> string" where
  "new_module_warning key =
     ''[vuex] trying to add a new module '' @ [CHR 0x27] @ key @ [CHR 0x27] @
     '' on hot reloading, manual reload is needed''"

function update :: "bool \<Rightarrow> string list \<Rightarrow> module \<Rightarrow> rawModule \<Rightarrow> string list \<Rightarrow>
    (unit, module \<times> string list) result"
  and update_children :: "bool \<Rightarrow> string list \<Rightarrow> module \<Rightarrow> (string \<times> rawModule) list \<Rightarrow> string list \<Rightarrow>
    (unit, module \<times> string list) result"
where
  "update dev path targetModule newModule console =
     (case (if dev then assertRawModule newModule else None) of
        Some e \<Rightarrow> Throw e (targetModule, console)
      | None \<Rightarrow>
          update_children dev path (Module_update targetModule newModule)
            (modules_raw newModule) console)"
| "update_children dev path targetModule [] console = Return () (targetModule, console)"
| "update_children dev path targetModule ((key, newChild) # rest) console =
     (case getChild targetModule key of
        None \<Rightarrow>
          Return () (targetModule, if dev then console @ [new_module_warning key] else console)
      | Some child \<Rightarrow>
         (case update dev (path @ [key]) child newChild console of
            Throw e (child', console') \<Rightarrow> Throw e (addChild key child' targetModule, console')
          | Return u (child', console') \<Rightarrow>
              update_children dev path (addChild key child' targetModule) rest console'))"
  by pat_completeness auto
termination
  by (relation "measure (\<lambda>x. case x of
          Inl (dev, path, target, new, console) \<Rightarrow> size new
        | Inr (dev, path, target, mods, console) \<Rightarrow> size_list (size_prod (\<lambda>k. 0) size) mods)")
     (auto, case_tac newModule, simp)

definition ModuleCollection_update :: "bool \<Rightarrow> rawModule \<Rightarrow> module \<Rightarrow> string list \<Rightarrow>
    (unit, module \<times> string list) result" where
  "ModuleCollection_update dev rawRootModule root console = update dev [] root rawRootModule console"

section \<open>Store (store.js)\<close>

text \<open>
  User functions are references; what they do when called is given by \<open>callbacks\<close>, over
  which every statement below is universally quantified. A mutation handler receives its
  module's state and the payload, leaves a new module state behind and may throw; a
  subscriber observes and may throw. Handlers and subscribers that call back into the
  store are outside this model. \<open>source_text\<close> is \<^verbatim>\<open>String(f)\<close>, which JavaScript uses
  when a function ends up as a property key. A promise is represented by how it settles.
\<close>

datatype settlement = Fulfilled jsval | Rejected jsval

record callbacks =
  mutation_fn :: "ref \<Rightarrow> jsval \<Rightarrow> jsval \<Rightarrow> jsval \<times> error option"
  subscriber_fn :: "ref \<Rightarrow> jsval \<Rightarrow> jsval \<Rightarrow> error option"
  action_fn :: "ref \<Rightarrow> jsval \<Rightarrow> jsval \<Rightarrow> jsval \<Rightarrow> error + settlement"
  action_subscriber_fn :: "ref \<Rightarrow> jsval list \<Rightarrow> error option"
  source_text :: "ref \<Rightarrow> string"

text \<open>Every call of a user function is recorded, callee and arguments, in call order.\<close>

datatype event = Call jsval "jsval list"

text \<open>What \<^verbatim>\<open>makeLocalContext\<close> closes over, and the closures the two registries hold.\<close>

datatype local_context = LocalContext (local_namespace: string) (local_path: "string list")

datatype wrappedMutationHandler =
  WrappedMutationHandler (mutation_handler: jsval) (mutation_local: local_context)

datatype wrappedActionHandler =
  WrappedActionHandler (action_handler: jsval) (action_local: local_context)

text \<open>An action subscriber object, \<^verbatim>\<open>{ before, after, error }\<close>; it lives in the heap because
  \<^verbatim>\<open>indexOf\<close> compares objects by identity.\<close>

datatype actionSubscriber =
  ActionSubscriber (sub_before: "ref option") (sub_after: "ref option") (sub_error: "ref option")

record store =
  committing :: bool
  actions :: "string \<rightharpoonup> wrappedActionHandler list"
  actionSubscribers :: "ref list"
  mutations :: "string \<rightharpoonup> wrappedMutationHandler list"
  wrappedGetters :: "string \<rightharpoonup> jsval \<times> local_context"
  modules :: module
  modulesNamespaceMap :: "string \<rightharpoonup> string list"
  subscribers :: "ref list"
  vm_state :: jsval
  heap :: "ref \<rightharpoonup> actionSubscriber"
  next_ref :: ref
  trace :: "event list"

text \<open>Decimal digits of an integer, for a number used as a property key.\<close>

fun digit_char :: "nat \<Rightarrow> char" where
  "digit_char n = (''0123456789'' ! n)"

function digits :: "nat \<Rightarrow> string" where
  "digits n = (if n < 10 then [digit_char n] else digits (n div 10) @ [digit_char (n mod 10)])"
  by pat_completeness auto
termination
  by (relation "measure id") auto

definition show_int :: "int \<Rightarrow> string" where
  "show_int i = (if i < 0 then ''-'' @ digits (nat (- i)) else digits (nat i))"

text \<open>\<^verbatim>\<open>String(v)\<close>: the conversion behind \<^verbatim>\<open>table[v]\<close> and \<^verbatim>\<open>namespace + v\<close>.\<close>

fun to_string :: "callbacks \<Rightarrow> jsval \<Rightarrow> string" where
  "to_string cb JUndefined = ''undefined''"
| "to_string cb JNull = ''null''"
| "to_string cb (JBool b) = (if b then ''true'' else ''false'')"
| "to_string cb (JNum n) = show_int n"
| "to_string cb (JStr s) = s"
| "to_string cb (JFun f) = source_text cb f"
| "to_string cb (JObj fs) = ''[object Object]''"

fun isObject :: "jsval \<Rightarrow> bool" where
  "isObject (JObj fs) = True"
| "isObject v = False"

fun is_string :: "jsval \<Rightarrow> bool" where
  "is_string (JStr s) = True"
| "is_string v = False"

text \<open>A property read whose receiver is known not to be \<^verbatim>\<open>null\<close> or \<^verbatim>\<open>undefined\<close>.\<close>

definition read_prop :: "jsval \<Rightarrow> string \<Rightarrow> jsval" where
  "read_prop v k = (case get_prop v k of Inl e \<Rightarrow> JUndefined | Inr x \<Rightarrow> x)"

definition unifyObjectStyle :: "bool \<Rightarrow> jsval \<Rightarrow> jsval \<Rightarrow> jsval \<Rightarrow> error + (jsval \<times> jsval \<times> jsval)" where
  "unifyObjectStyle dev type payload options =
     (let (type', payload', options') =
            (if isObject type \<and> truthy (read_prop type ''type'')
             then (read_prop type ''type'', type, payload)
             else (type, payload, options))
      in if dev \<and> \<not> is_string type' then Inl AssertionError
         else Inr (type', payload', options'))"

fun getNestedState :: "jsval \<Rightarrow> string list \<Rightarrow> error + jsval" where
  "getNestedState st [] = Inr st"
| "getNestedState st (key # path) =
     (case get_prop st key of Inl e \<Rightarrow> Inl e | Inr v \<Rightarrow> getNestedState v path)"

text \<open>A handler changes its module's state in place; with values, the changed state is
  stored back where \<^verbatim>\<open>getNestedState\<close> found it.\<close>

fun setNestedState :: "jsval \<Rightarrow> string list \<Rightarrow> jsval \<Rightarrow> jsval" where
  "setNestedState st [] v = v"
| "setNestedState st (key # path) v =
     (case st of
        JObj fs \<Rightarrow>
          (case map_of fs key of
             None \<Rightarrow> st
           | Some c \<Rightarrow> JObj (AList.update key (setNestedState c path v) fs))
      | _ \<Rightarrow> st)"

definition withCommit :: "(store \<Rightarrow> ('a, store) result) \<Rightarrow> store \<Rightarrow> (unit, store) result" where
  "withCommit fn s =
     (let committing0 = committing s in
      case fn (s\<lparr>committing := True\<rparr>) of
        Throw e s' \<Rightarrow> Throw e s'
      | Return x s' \<Rightarrow> Return () (s'\<lparr>committing := committing0\<rparr>))"

text \<open>\<^verbatim>\<open>registerMutation\<close> and the closure it pushes. The closure reads \<^verbatim>\<open>local.state\<close> and
  calls the handler; calling a value that is not a function raises a TypeError.\<close>

definition registerMutation :: "string \<Rightarrow> jsval \<Rightarrow> local_context \<Rightarrow> store \<Rightarrow> store" where
  "registerMutation type h local s =
     (let entry = (case mutations s type of None \<Rightarrow> [] | Some e \<Rightarrow> e)
      in s\<lparr>mutations := (mutations s)(type \<mapsto> entry @ [WrappedMutationHandler h local])\<rparr>)"

definition call_mutation :: "callbacks \<Rightarrow> wrappedMutationHandler \<Rightarrow> jsval \<Rightarrow> store \<Rightarrow> (unit, store) result" where
  "call_mutation cb h payload s =
     (case getNestedState (vm_state s) (local_path (mutation_local h)) of
        Inl e \<Rightarrow> Throw e s
      | Inr local_state \<Rightarrow>
          (case mutation_handler h of
             JFun f \<Rightarrow>
               (let (local_state', thrown) = mutation_fn cb f local_state payload;
                    s' = s\<lparr>vm_state := setNestedState (vm_state s) (local_path (mutation_local h)) local_state',
                           trace := trace s @ [Call (JFun f) [local_state, payload]]\<rparr>
                in case thrown of None \<Rightarrow> Return () s' | Some e \<Rightarrow> Throw e s')
           | _ \<Rightarrow> Throw TypeError s))"

text \<open>\<^verbatim>\<open>entry.forEach(function commitIterator(handler) { handler(payload) })\<close>\<close>

fun commitIterator :: "callbacks \<Rightarrow> wrappedMutationHandler list \<Rightarrow> jsval \<Rightarrow> store \<Rightarrow> (unit, store) result" where
  "commitIterator cb [] payload s = Return () s"
| "commitIterator cb (h # entry) payload s =
     (case call_mutation cb h payload s of
        Throw e s' \<Rightarrow> Throw e s'
      | Return u s' \<Rightarrow> commitIterator cb entry payload s')"

text \<open>\<^verbatim>\<open>subs.forEach((sub) => sub(mutation, this.state))\<close>, over the copy made by \<^verbatim>\<open>slice\<close>.\<close>

fun notify_subscribers :: "callbacks \<Rightarrow> ref list \<Rightarrow> jsval \<Rightarrow> store \<Rightarrow> (unit, store) result" where
  "notify_subscribers cb [] mutation s = Return () s"
| "notify_subscribers cb (sub # subs) mutation s =
     (let s' = s\<lparr>trace := trace s @ [Call (JFun sub) [mutation, vm_state s]]\<rparr>
      in case subscriber_fn cb sub mutation (vm_state s) of
           Some e \<Rightarrow> Throw e s'
         | None \<Rightarrow> notify_subscribers cb subs mutation s')"

definition commit :: "callbacks \<Rightarrow> bool \<Rightarrow> jsval \<Rightarrow> jsval \<Rightarrow> jsval \<Rightarrow> store \<Rightarrow> (unit, store) result" where
  "commit cb dev type0 payload0 options0 s =
     (case unifyObjectStyle dev type0 payload0 options0 of
        Inl e \<Rightarrow> Throw e s
      | Inr (type, payload, options) \<Rightarrow>
          (let mutation = JObj [(''type'', type), (''payload'', payload)] in
           case mutations s (to_string cb type) of
             None \<Rightarrow> Return () s
           | Some entry \<Rightarrow>
               (case withCommit (commitIterator cb entry payload) s of
                  Throw e s1 \<Rightarrow> Throw e s1
                | Return u s1 \<Rightarrow> notify_subscribers cb (subscribers s1) mutation s1)))"

text \<open>
  \<^verbatim>\<open>dispatch\<close>. Between the lookup of the entry and the notification of the \<^verbatim>\<open>before\<close>
  subscribers the source has the expression statement \<^verbatim>\<open>w;\<close> (line 333). Evaluating an
  identifier that no enclosing scope binds raises a ReferenceError. The names below are
  the bindings in scope at that line: the parameters and locals of \<^verbatim>\<open>dispatch\<close> and the
  imports and top-level declarations of store.js. Neither they nor the standard globals
  include \<^verbatim>\<open>w\<close>.
\<close>

definition dispatch_scope :: "string list" where
  "dispatch_scope =
     [''_type'', ''_payload'', ''type'', ''payload'', ''action'', ''entry'',
      ''applyMixin'', ''devtoolPlugin'', ''ModuleCollection'', ''forEachValue'', ''isObject'',
      ''isPromise'', ''assert'', ''partial'', ''Vue'', ''Store'', ''genericSubscribe'',
      ''resetStore'', ''resetStoreVM'', ''installModule'', ''makeLocalContext'',
      ''makeLocalGetters'', ''registerMutation'', ''registerAction'', ''registerGetter'',
      ''enableStrictMode'', ''getNestedState'', ''unifyObjectStyle'', ''install'']"

definition evaluate_identifier :: "string \<Rightarrow> error option" where
  "evaluate_identifier name = (if name \<in> set dispatch_scope then None else Some ReferenceError)"

text \<open>\<^verbatim>\<open>registerAction\<close> and the closure it pushes. The closure builds the context object
  (reading \<^verbatim>\<open>local.state\<close>), calls the handler and turns its result into a promise.\<close>

definition registerAction :: "string \<Rightarrow> jsval \<Rightarrow> local_context \<Rightarrow> store \<Rightarrow> store" where
  "registerAction type h local s =
     (let entry = (case actions s type of None \<Rightarrow> [] | Some e \<Rightarrow> e)
      in s\<lparr>actions := (actions s)(type \<mapsto> entry @ [WrappedActionHandler h local])\<rparr>)"

definition call_action :: "callbacks \<Rightarrow> wrappedActionHandler \<Rightarrow> jsval \<Rightarrow> store \<Rightarrow> (settlement, store) result" where
  "call_action cb h payload s =
     (case getNestedState (vm_state s) (local_path (action_local h)) of
        Inl e \<Rightarrow> Throw e s
      | Inr local_state \<Rightarrow>
          (case action_handler h of
             JFun f \<Rightarrow>
               (let s' = s\<lparr>trace := trace s @ [Call (JFun f) [local_state, vm_state s, payload]]\<rparr>
                in case action_fn cb f local_state (vm_state s) payload of
                     Inl e \<Rightarrow> Throw e s'
                   | Inr settled \<Rightarrow> Return settled s')
           | _ \<Rightarrow> Throw TypeError s))"

text \<open>\<^verbatim>\<open>entry.map((handler) => handler(payload))\<close>\<close>

fun map_actions :: "callbacks \<Rightarrow> wrappedActionHandler list \<Rightarrow> jsval \<Rightarrow> store \<Rightarrow> (settlement list, store) result" where
  "map_actions cb [] payload s = Return [] s"
| "map_actions cb (h # entry) payload s =
     (case call_action cb h payload s of
        Throw e s' \<Rightarrow> Throw e s'
      | Return settled s' \<Rightarrow>
          (case map_actions cb entry payload s' of
             Throw e s'' \<Rightarrow> Throw e s''
           | Return rest s'' \<Rightarrow> Return (settled # rest) s''))"

text \<open>What the promise that \<^verbatim>\<open>dispatch\<close> returns settles to: one handler's value as it is,
  or the list that \<^verbatim>\<open>Promise.all\<close> collects. Time is not modelled: of several rejections
  the first in list order is taken.\<close>

datatype resolved = Single jsval | Listed "jsval list"

datatype promise = Resolves resolved | Rejects jsval

fun promise_all :: "settlement list \<Rightarrow> jsval list + jsval" where
  "promise_all [] = Inl []"
| "promise_all (Rejected r # rest) = Inr r"
| "promise_all (Fulfilled v # rest) =
     (case promise_all rest of Inl vs \<Rightarrow> Inl (v # vs) | Inr r \<Rightarrow> Inr r)"

text \<open>The three subscriber loops of \<^verbatim>\<open>dispatch\<close> run inside \<^verbatim>\<open>try\<close>: the first subscriber
  that throws ends the loop and the error is dropped.\<close>

fun notify_action_subscribers :: "callbacks \<Rightarrow> ref list \<Rightarrow> jsval list \<Rightarrow> store \<Rightarrow> store" where
  "notify_action_subscribers cb [] args s = s"
| "notify_action_subscribers cb (f # fs) args s =
     (let s' = s\<lparr>trace := trace s @ [Call (JFun f) args]\<rparr>
      in case action_subscriber_fn cb f args of
           Some e \<Rightarrow> s'
         | None \<Rightarrow> notify_action_subscribers cb fs args s')"

definition subscribers_with :: "(actionSubscriber \<Rightarrow> ref option) \<Rightarrow> store \<Rightarrow> ref list" where
  "subscribers_with field s =
     List.map_filter (\<lambda>r. case heap s r of None \<Rightarrow> None | Some ob \<Rightarrow> field ob) (actionSubscribers s)"

text \<open>The statements of \<^verbatim>\<open>dispatch\<close> that follow line 333.\<close>

definition dispatch_rest :: "callbacks \<Rightarrow> jsval \<Rightarrow> wrappedActionHandler list \<Rightarrow> jsval \<Rightarrow> store \<Rightarrow>
    (promise option, store) result" where
  "dispatch_rest cb action entry payload s =
     (let s1 = notify_action_subscribers cb (subscribers_with sub_before s) [action, vm_state s] s
      in case (if length entry > 1
               then (case map_actions cb entry payload s1 of
                       Throw e s2 \<Rightarrow> Throw e s2
                     | Return settled s2 \<Rightarrow>
                         Return (case promise_all settled of
                                   Inl vs \<Rightarrow> Resolves (Listed vs)
                                 | Inr r \<Rightarrow> Rejects r) s2)
               else (case entry of
                       [] \<Rightarrow> Throw TypeError s1
                     | h # rest \<Rightarrow>
                         (case call_action cb h payload s1 of
                            Throw e s2 \<Rightarrow> Throw e s2
                          | Return (Fulfilled v) s2 \<Rightarrow> Return (Resolves (Single v)) s2
                          | Return (Rejected r) s2 \<Rightarrow> Return (Rejects r) s2))) of
           Throw e s2 \<Rightarrow> Throw e s2
         | Return (Resolves res) s2 \<Rightarrow>
             Return (Some (Resolves res))
               (notify_action_subscribers cb (subscribers_with sub_after s2) [action, vm_state s2] s2)
         | Return (Rejects r) s2 \<Rightarrow>
             Return (Some (Rejects r))
               (notify_action_subscribers cb (subscribers_with sub_error s2)
                  [action, vm_state s2, r] s2))"

definition dispatch :: "callbacks \<Rightarrow> bool \<Rightarrow> jsval \<Rightarrow> jsval \<Rightarrow> store \<Rightarrow> (promise option, store) result" where
  "dispatch cb dev type0 payload0 s =
     (case unifyObjectStyle dev type0 payload0 JUndefined of
        Inl e \<Rightarrow> Throw e s
      | Inr (type, payload, options) \<Rightarrow>
          (let action = JObj [(''type'', type), (''payload'', payload)] in
           case actions s (to_string cb type) of
             None \<Rightarrow> Return None s
           | Some entry \<Rightarrow>
               (case evaluate_identifier ''w'' of
                  Some e \<Rightarrow> Throw e s
                | None \<Rightarrow> dispatch_rest cb action entry payload s)))"

text \<open>
  \<^verbatim>\<open>genericSubscribe\<close>. The closure it returns keeps \<^verbatim>\<open>fn\<close> and the list; calling it is
  \<open>unsubscribe\<close>.
\<close>

fun indexOf :: "'a \<Rightarrow> 'a list \<Rightarrow> int" where
  "indexOf x [] = - 1"
| "indexOf x (y # ys) =
     (if x = y then 0 else (let i = indexOf x ys in if i < 0 then - 1 else i + 1))"

definition genericSubscribe :: "ref \<Rightarrow> ref list \<Rightarrow> jsval \<Rightarrow> ref list" where
  "genericSubscribe fn subs options =
     (if indexOf fn subs < 0
      then (if truthy options \<and> truthy (read_prop options ''prepend'') then fn # subs else subs @ [fn])
      else subs)"

definition unsubscribe :: "ref \<Rightarrow> ref list \<Rightarrow> ref list" where
  "unsubscribe fn subs =
     (let i = indexOf fn subs
      in if i > - 1 then take (nat i) subs @ drop (nat i + 1) subs else subs)"

text \<open>\<^verbatim>\<open>Store.subscribe\<close> and \<^verbatim>\<open>Store.subscribeAction\<close> return the entry that the unsubscribe
  closure holds. A function given to \<^verbatim>\<open>subscribeAction\<close> is wrapped in a new object
  \<^verbatim>\<open>{ before: fn }\<close>; a subscriber object is used as it is.\<close>

datatype action_subscription = SubscribeFunction ref | SubscribeObject ref

definition subscribe :: "ref \<Rightarrow> jsval \<Rightarrow> store \<Rightarrow> ref \<times> store" where
  "subscribe fn options s = (fn, s\<lparr>subscribers := genericSubscribe fn (subscribers s) options\<rparr>)"

definition unsubscribe_mutation :: "ref \<Rightarrow> store \<Rightarrow> store" where
  "unsubscribe_mutation fn s = s\<lparr>subscribers := unsubscribe fn (subscribers s)\<rparr>"

definition subscribeAction :: "action_subscription \<Rightarrow> jsval \<Rightarrow> store \<Rightarrow> ref \<times> store" where
  "subscribeAction fn options s =
     (case fn of
        SubscribeFunction f \<Rightarrow>
          (let subs = next_ref s;
               s' = s\<lparr>heap := (heap s)(subs \<mapsto> ActionSubscriber (Some f) None None),
                      next_ref := Suc subs\<rparr>
           in (subs, s'\<lparr>actionSubscribers := genericSubscribe subs (actionSubscribers s') options\<rparr>))
      | SubscribeObject subs \<Rightarrow>
          (subs, s\<lparr>actionSubscribers := genericSubscribe subs (actionSubscribers s) options\<rparr>))"

definition unsubscribe_action :: "ref \<Rightarrow> store \<Rightarrow> store" where
  "unsubscribe_action subs s = s\<lparr>actionSubscribers := unsubscribe subs (actionSubscribers s)\<rparr>"

text \<open>
  \<^verbatim>\<open>makeLocalContext\<close>: the \<^verbatim>\<open>commit\<close> and \<^verbatim>\<open>dispatch\<close> of a module's local context. With an
  empty namespace they are the store's own.
\<close>

definition makeLocalContext :: "string \<Rightarrow> string list \<Rightarrow> local_context" where
  "makeLocalContext ns path = LocalContext ns path"

definition local_commit :: "callbacks \<Rightarrow> bool \<Rightarrow> local_context \<Rightarrow> jsval \<Rightarrow> jsval \<Rightarrow> jsval \<Rightarrow> store \<Rightarrow> (unit, store) result" where
  "local_commit cb dev local type0 payload0 options0 s =
     (if local_namespace local = '''' then commit cb dev type0 payload0 options0 s
      else
        (case unifyObjectStyle dev type0 payload0 options0 of
           Inl e \<Rightarrow> Throw e s
         | Inr (type, payload, options) \<Rightarrow>
             if \<not> truthy options \<or> \<not> truthy (read_prop options ''root'')
             then (let type' = local_namespace local @ to_string cb type
                   in if dev \<and> mutations s type' = None then Return () s
                      else commit cb dev (JStr type') payload options s)
             else commit cb dev type payload options s))"

definition local_dispatch :: "callbacks \<Rightarrow> bool \<Rightarrow> local_context \<Rightarrow> jsval \<Rightarrow> jsval \<Rightarrow> jsval \<Rightarrow> store \<Rightarrow> (promise option, store) result" where
  "local_dispatch cb dev local type0 payload0 options0 s =
     (if local_namespace local = '''' then dispatch cb dev type0 payload0 s
      else
        (case unifyObjectStyle dev type0 payload0 options0 of
           Inl e \<Rightarrow> Throw e s
         | Inr (type, payload, options) \<Rightarrow>
             if \<not> truthy options \<or> \<not> truthy (read_prop options ''root'')
             then (let type' = local_namespace local @ to_string cb type
                   in if dev \<and> actions s type' = None then Return None s
                      else dispatch cb dev (JStr type') payload s)
             else dispatch cb dev type payload s))"

text \<open>
  \<^verbatim>\<open>installModule\<close>: the walk that fills the registries. \<^verbatim>\<open>Vue.set\<close> and \<^verbatim>\<open>Vue.delete\<close> belong to
  the view library; on an object they add and remove a property, and a target that is not
  an object is left as it is. The Vue instance that \<^verbatim>\<open>resetStoreVM\<close> builds is represented
  by the state it holds (\<open>vm_state\<close>), which during construction is the root module's state.
\<close>

definition Vue_set :: "jsval \<Rightarrow> string \<Rightarrow> jsval \<Rightarrow> jsval" where
  "Vue_set target key v = (case target of JObj fs \<Rightarrow> JObj (AList.update key v fs) | _ \<Rightarrow> target)"

definition Vue_delete :: "jsval \<Rightarrow> string \<Rightarrow> jsval" where
  "Vue_delete target key = (case target of JObj fs \<Rightarrow> JObj (AList.delete key fs) | _ \<Rightarrow> target)"

definition registerGetter :: "string \<Rightarrow> jsval \<Rightarrow> local_context \<Rightarrow> store \<Rightarrow> store" where
  "registerGetter type rawGetter local s =
     (case wrappedGetters s type of
        Some g \<Rightarrow> s
      | None \<Rightarrow> s\<lparr>wrappedGetters := (wrappedGetters s)(type \<mapsto> (rawGetter, local))\<rparr>)"

definition table_entries :: "(string \<times> jsval) list option \<Rightarrow> (string \<times> jsval) list" where
  "table_entries tbl = (case tbl of None \<Rightarrow> [] | Some t \<Rightarrow> t)"

fun forEachMutation :: "string \<Rightarrow> local_context \<Rightarrow> (string \<times> jsval) list \<Rightarrow> store \<Rightarrow> store" where
  "forEachMutation ns local [] s = s"
| "forEachMutation ns local ((key, mutation) # rest) s =
     forEachMutation ns local rest (registerMutation (ns @ key) mutation local s)"

fun forEachAction :: "string \<Rightarrow> local_context \<Rightarrow> (string \<times> jsval) list \<Rightarrow> store \<Rightarrow> (unit, store) result" where
  "forEachAction ns local [] s = Return () s"
| "forEachAction ns local ((key, action) # rest) s =
     (case get_prop action ''root'' of
        Inl e \<Rightarrow> Throw e s
      | Inr root_flag \<Rightarrow>
          (let type = (if truthy root_flag then key else ns @ key);
               h = (if truthy (read_prop action ''handler'') then read_prop action ''handler''
                    else action)
           in forEachAction ns local rest (registerAction type h local s)))"

fun forEachGetter :: "string \<Rightarrow> local_context \<Rightarrow> (string \<times> jsval) list \<Rightarrow> store \<Rightarrow> store" where
  "forEachGetter ns local [] s = s"
| "forEachGetter ns local ((key, getter) # rest) s =
     forEachGetter ns local rest (registerGetter (ns @ key) getter local s)"

function installModule :: "string list \<Rightarrow> module \<Rightarrow> bool \<Rightarrow> store \<Rightarrow> (unit, store) result"
  and forEachChild :: "string list \<Rightarrow> (string \<times> module) list \<Rightarrow> bool \<Rightarrow> store \<Rightarrow> (unit, store) result"
where
  "installModule path m hot s =
     (case getNamespace (modules s) path of
        Inl e \<Rightarrow> Throw e s
      | Inr ns \<Rightarrow>
          (let s1 = (if namespaced m
                     then s\<lparr>modulesNamespaceMap := (modulesNamespaceMap s)(ns \<mapsto> path)\<rparr>
                     else s)
           in case (if path \<noteq> [] \<and> \<not> hot
                    then (case getNestedState (vm_state s1) (butlast path) of
                            Inl e \<Rightarrow> Throw e s1
                          | Inr parentState \<Rightarrow>
                              withCommit
                                (\<lambda>s2. Return ()
                                   (s2\<lparr>vm_state := setNestedState (vm_state s2) (butlast path)
                                                      (Vue_set parentState (last path) (state m))\<rparr>))
                                s1)
                    else Return () s1) of
                Throw e s3 \<Rightarrow> Throw e s3
              | Return u s3 \<Rightarrow>
                  (let local = makeLocalContext ns path;
                       s4 = forEachMutation ns local (table_entries (mutations_own (rawModule m))) s3
                   in case forEachAction ns local (table_entries (actions_own (rawModule m))) s4 of
                        Throw e s5 \<Rightarrow> Throw e s5
                      | Return u' s5 \<Rightarrow>
                          forEachChild path (children m) hot
                            (forEachGetter ns local (table_entries (getters_own (rawModule m))) s5))))"
| "forEachChild path [] hot s = Return () s"
| "forEachChild path ((key, child) # rest) hot s =
     (case installModule (path @ [key]) child hot s of
        Throw e s' \<Rightarrow> Throw e s'
      | Return u s' \<Rightarrow> forEachChild path rest hot s')"
  by pat_completeness auto
termination
  by (relation "measure (\<lambda>x. case x of
          Inl (path, m, hot, s) \<Rightarrow> size m
        | Inr (path, cs, hot, s) \<Rightarrow> size_list (size_prod (\<lambda>k. 0) size) cs)")
     (auto, case_tac m, simp)

text \<open>The constructor, up to the plugins: the registries are empty, the module collection
  is built from the options and installed.\<close>

definition initial_store :: "module \<Rightarrow> store" where
  "initial_store root =
     \<lparr>committing = False, actions = Map.empty, actionSubscribers = [], mutations = Map.empty,
      wrappedGetters = Map.empty, modules = root, modulesNamespaceMap = Map.empty,
      subscribers = [], vm_state = state root, heap = Map.empty, next_ref = 0, trace = []\<rparr>"

definition new_Store :: "bool \<Rightarrow> rawModule \<Rightarrow> (unit, store) result" where
  "new_Store dev options =
     (case new_ModuleCollection dev options of
        Throw e root \<Rightarrow> Throw e (initial_store root)
      | Return u root \<Rightarrow> installModule [] root False (initial_store root))"

definition resetStore :: "store \<Rightarrow> (unit, store) result" where
  "resetStore s =
     installModule [] (modules s) True
       (s\<lparr>actions := Map.empty, mutations := Map.empty, wrappedGetters := Map.empty,
          modulesNamespaceMap := Map.empty\<rparr>)"

text \<open>\<^verbatim>\<open>registerModule\<close>, \<^verbatim>\<open>unregisterModule\<close>, \<^verbatim>\<open>hasModule\<close> and \<^verbatim>\<open>hotUpdate\<close>, for a path given
  as an array.\<close>

definition registerModule :: "bool \<Rightarrow> string list \<Rightarrow> rawModule \<Rightarrow> bool \<Rightarrow> store \<Rightarrow> (unit, store) result" where
  "registerModule dev path raw preserveState s =
     (if dev \<and> path = [] then Throw AssertionError s
      else
        (case register dev path raw True (modules s) of
           Throw e root \<Rightarrow> Throw e (s\<lparr>modules := root\<rparr>)
         | Return u root \<Rightarrow>
             (case get root path of
                Inl e \<Rightarrow> Throw e (s\<lparr>modules := root\<rparr>)
              | Inr None \<Rightarrow> Throw TypeError (s\<lparr>modules := root\<rparr>)
              | Inr (Some m) \<Rightarrow> installModule path m preserveState (s\<lparr>modules := root\<rparr>))))"

definition unregisterModule :: "string list \<Rightarrow> store \<Rightarrow> (unit, store) result" where
  "unregisterModule path s =
     (case unregister path (modules s) of
        Throw e root \<Rightarrow> Throw e (s\<lparr>modules := root\<rparr>)
      | Return u root \<Rightarrow>
          (case withCommit
                  (\<lambda>s1. case getNestedState (vm_state s1) (butlast path) of
                           Inl e \<Rightarrow> Throw e s1
                         | Inr parentState \<Rightarrow>
                             Return ()
                               (s1\<lparr>vm_state := setNestedState (vm_state s1) (butlast path)
                                                  (Vue_delete parentState (last_key path))\<rparr>))
                  (s\<lparr>modules := root\<rparr>) of
             Throw e s2 \<Rightarrow> Throw e s2
           | Return u' s2 \<Rightarrow> resetStore s2))"

definition hasModule :: "string list \<Rightarrow> store \<Rightarrow> error + bool" where
  "hasModule path s = isRegistered (modules s) path"

definition hotUpdate :: "bool \<Rightarrow> rawModule \<Rightarrow> string list \<Rightarrow> store \<Rightarrow> (unit, store \<times> string list) result" where
  "hotUpdate dev newOptions console s =
     (case ModuleCollection_update dev newOptions (modules s) console of
        Throw e (root, console') \<Rightarrow> Throw e (s\<lparr>modules := root\<rparr>, console')
      | Return u (root, console') \<Rightarrow>
          (case resetStore (s\<lparr>modules := root\<rparr>) of
             Throw e s' \<Rightarrow> Throw e (s', console')
           | Return u' s' \<Rightarrow> Return () (s', console')))"

section \<open>Notions used in the statements\<close>

text \<open>The state a call leaves behind, whether it returned or threw.\<close>

fun result_state :: "('a, 's) result \<Rightarrow> 's" where
  "result_state (Return u s) = s"
| "result_state (Throw e s) = s"

text \<open>A declaration that \<^verbatim>\<open>assertRawModule\<close> accepts at every level.\<close>

function valid_declaration :: "rawModule \<Rightarrow> bool"
  and valid_declarations :: "(string \<times> rawModule) list \<Rightarrow> bool"
where
  "valid_declaration raw = (assertRawModule raw = None \<and> valid_declarations (modules_raw raw))"
| "valid_declarations [] = True"
| "valid_declarations ((key, raw) # rest) = (valid_declaration raw \<and> valid_declarations rest)"
  by pat_completeness auto
termination
  by (relation "measure (\<lambda>x. case x of
          Inl raw \<Rightarrow> size raw
        | Inr mods \<Rightarrow> size_list (size_prod (\<lambda>k. 0) size) mods)")
     (auto, case_tac raw, simp)

text \<open>What is left of a module tree when the namespaced flags and the tables of getters,
  mutations and actions are forgotten: the keys in their order, the runtime flags, the
  states of the modules and the states their declarations name.\<close>

datatype frame = Frame bool "(string \<times> frame) list" jsval rawState

function skeleton :: "module \<Rightarrow> frame"
  and skeletons :: "(string \<times> module) list \<Rightarrow> (string \<times> frame) list"
where
  "skeleton m = Frame (runtime m) (skeletons (children m)) (state m) (state_own (rawModule m))"
| "skeletons [] = []"
| "skeletons ((key, c) # rest) = (key, skeleton c) # skeletons rest"
  by pat_completeness auto
termination
  by (relation "measure (\<lambda>x. case x of
          Inl m \<Rightarrow> size m
        | Inr cs \<Rightarrow> size_list (size_prod (\<lambda>k. 0) size) cs)")
     (auto, case_tac m, simp)

text \<open>\<^verbatim>\<open>options && options.prepend\<close>\<close>

definition prepend_option :: "jsval \<Rightarrow> bool" where
  "prepend_option options = (truthy options \<and> truthy (read_prop options ''prepend''))"

section \<open>Example inputs\<close>

text \<open>
  A root with a counter, a namespaced module \<^verbatim>\<open>user\<close> and a module \<^verbatim>\<open>log\<close> without a
  namespace whose mutation shares the type \<^verbatim>\<open>inc\<close> with the root's.
\<close>

definition user_options :: rawModule where
  "user_options =
     RawModule (JBool True) (StateValue (JObj [(''name'', JStr '''')])) None
       (Some [(''setName'', JFun 13)]) None []"

definition log_options :: rawModule where
  "log_options =
     RawModule JUndefined (StateFunction (JObj [])) None (Some [(''inc'', JFun 14)]) None []"

definition example_options :: rawModule where
  "example_options =
     RawModule JUndefined (StateValue (JObj [(''count'', JNum 0)])) None
       (Some [(''inc'', JFun 11)]) (Some [(''incAsync'', JFun 12)])
       [(''user'', user_options), (''log'', log_options)]"

definition user_module :: module where
  "user_module = Module False [] (own_properties user_options) (JObj [(''name'', JStr '''')])"

definition log_module :: module where
  "log_module = Module False [] (own_properties log_options) (JObj [])"

definition example_root :: module where
  "example_root =
     Module False [(''user'', user_module), (''log'', log_module)] (own_properties example_options)
       (JObj [(''count'', JNum 0)])"

definition example_store :: store where
  "example_store =
     \<lparr>committing = False,
      actions = [''incAsync'' \<mapsto> [WrappedActionHandler (JFun 12) (LocalContext '''' [])]],
      actionSubscribers = [],
      mutations =
        [''inc'' \<mapsto> [WrappedMutationHandler (JFun 11) (LocalContext '''' []),
                     WrappedMutationHandler (JFun 14) (LocalContext '''' [''log''])],
         ''user/setName'' \<mapsto> [WrappedMutationHandler (JFun 13) (LocalContext ''user/'' [''user''])]],
      wrappedGetters = Map.empty,
      modules = example_root,
      modulesNamespaceMap = [''user/'' \<mapsto> [''user'']],
      subscribers = [],
      vm_state = JObj [(''count'', JNum 0), (''user'', JObj [(''name'', JStr '''')]), (''log'', JObj [])],
      heap = Map.empty, next_ref = 0, trace = []\<rparr>"

text \<open>Handlers that write the payload into the \<^verbatim>\<open>last\<close> field of their module's state,
  subscribers that do nothing, actions that resolve to their payload.\<close>

definition example_callbacks :: callbacks where
  "example_callbacks =
     \<lparr>mutation_fn = (\<lambda>f local_state payload.
         (case local_state of
            JObj fs \<Rightarrow> JObj (AList.update ''last'' payload fs)
          | _ \<Rightarrow> local_state, None)),
      subscriber_fn = (\<lambda>f mutation st. None),
      action_fn = (\<lambda>f local_state root_state payload. Inr (Fulfilled payload)),
      action_subscriber_fn = (\<lambda>f args. None),
      source_text = (\<lambda>f. ''function () {}'')\<rparr>"

text \<open>Three levels, of which the middle one has no namespace.\<close>

definition nested_c_options :: rawModule where
  "nested_c_options = RawModule (JBool True) (StateValue (JObj [])) None None None []"

definition nested_b_options :: rawModule where
  "nested_b_options =
     RawModule (JBool False) (StateValue (JObj [])) None None None [(''c'', nested_c_options)]"

definition nested_a_options :: rawModule where
  "nested_a_options =
     RawModule (JBool True) (StateValue (JObj [])) None None None [(''b'', nested_b_options)]"

definition nested_options :: rawModule where
  "nested_options =
     RawModule JUndefined (StateValue (JObj [])) None None None [(''a'', nested_a_options)]"

definition nested_c :: module where
  "nested_c = Module False [] (own_properties nested_c_options) (JObj [])"

definition nested_b :: module where
  "nested_b = Module False [(''c'', nested_c)] (own_properties nested_b_options) (JObj [])"

definition nested_a :: module where
  "nested_a = Module False [(''b'', nested_b)] (own_properties nested_a_options) (JObj [])"

definition nested_root :: module where
  "nested_root = Module False [(''a'', nested_a)] (own_properties nested_options) (JObj [])"

text \<open>A declaration registered at run time under \<^verbatim>\<open>user\<close>, with a child of its own.\<close>

definition profile_options :: rawModule where
  "profile_options =
     RawModule (JBool True) (StateValue JUndefined) None (Some [(''rename'', JFun 21)])
       (Some [(''load'', JObj [(''root'', JBool True), (''handler'', JFun 22)])])
       [(''avatar'', RawModule JUndefined (StateValue (JObj [(''url'', JStr '''')])) None None None [])]"

text \<open>A hot update that changes the root and \<^verbatim>\<open>user\<close>, then names a module \<^verbatim>\<open>ghost\<close> that does
  not exist, then \<^verbatim>\<open>log\<close>. The new root has no actions and the new \<^verbatim>\<open>user\<close> no namespaced
  flag. \<open>hot_root\<close> is the tree afterwards: the root is namespaced, has the new mutation
  and its old action; \<^verbatim>\<open>user\<close> has lost its flag and has the new getter and mutation;
  \<^verbatim>\<open>log\<close> is as it was; the states are the old ones.\<close>

definition hot_user :: rawModule where
  "hot_user =
     RawModule JUndefined (StateValue JNull) (Some [(''upper'', JFun 34)])
       (Some [(''setName'', JFun 33)]) None []"

definition hot_options :: rawModule where
  "hot_options =
     RawModule (JBool True) (StateValue JNull) None (Some [(''inc'', JFun 31)]) None
       [(''user'', hot_user),
        (''ghost'', RawModule JUndefined (StateValue JNull) None None None []),
        (''log'', RawModule (JBool True) (StateValue JNull) None None None [])]"

definition hot_root :: module where
  "hot_root =
     Module False
       [(''user'',
         Module False []
           (RawOwn JUndefined (StateValue (JObj [(''name'', JStr '''')]))
              (Some [(''upper'', JFun 34)]) (Some [(''setName'', JFun 33)]) None)
           (JObj [(''name'', JStr '''')])),
        (''log'',
         Module False []
           (RawOwn JUndefined (StateFunction (JObj [])) None (Some [(''inc'', JFun 14)]) None)
           (JObj []))]
       (RawOwn (JBool True) (StateValue (JObj [(''count'', JNum 0)])) None
          (Some [(''inc'', JFun 31)]) (Some [(''incAsync'', JFun 12)]))
       (JObj [(''count'', JNum 0)])"

text \<open>A store whose root declares a mutation with the empty name, so that a handler is
  registered under the empty type; one subscriber.\<close>

definition unnamed_options :: rawModule where
  "unnamed_options =
     RawModule JUndefined (StateValue (JObj [])) None (Some [('''', JFun 51)]) None []"

definition unnamed_store :: store where
  "unnamed_store = snd (subscribe 52 JUndefined (result_state (new_Store True unnamed_options)))"

text \<open>The example store with two mutation subscribers, and after \<^verbatim>\<open>commit("inc", 5)\<close>.\<close>

definition subscribed_store :: store where
  "subscribed_store = snd (subscribe 42 JUndefined (snd (subscribe 41 JUndefined example_store)))"

definition committed_store :: store where
  "committed_store =
     result_state (commit example_callbacks True (JStr ''inc'') (JNum 5) JUndefined subscribed_store)"

text \<open>The example store after \<^verbatim>\<open>subscribeAction\<close> was called twice with one function.\<close>

definition twice_subscribed :: store where
  "twice_subscribed =
     snd (subscribeAction (SubscribeFunction 61) JUndefined
            (snd (subscribeAction (SubscribeFunction 61) JUndefined example_store)))"

text \<open>The action handler \<open>h\<close>, called with payload \<open>p\<close> while the global state is \<open>st\<close>,
  returns a promise that resolves to \<open>v\<close>.\<close>

definition handler_resolves :: "callbacks \<Rightarrow> jsval \<Rightarrow> jsval \<Rightarrow> wrappedActionHandler \<Rightarrow> jsval \<Rightarrow> bool" where
  "handler_resolves cb st p h v =
     (case action_handler h of
        JFun f \<Rightarrow>
          (case getNestedState st (local_path (action_local h)) of
             Inl e \<Rightarrow> False
           | Inr local_state \<Rightarrow> action_fn cb f local_state st p = Inr (Fulfilled v))
      | _ \<Rightarrow> False)"

section \<open>Facts about the module tree\<close>

lemma own_properties_sel [simp]:
  "namespaced_own (own_properties raw) = namespaced_raw raw"
  "state_own (own_properties raw) = state_raw raw"
  "getters_own (own_properties raw) = getters_raw raw"
  "mutations_own (own_properties raw) = mutations_raw raw"
  "actions_own (own_properties raw) = actions_raw raw"
  by (simp_all add: own_properties_def)

lemma get_from_append:
  "get_from acc (xs @ ys) = (case get_from acc xs of Inl e \<Rightarrow> Inl e | Inr a \<Rightarrow> get_from a ys)"
  by (induction acc xs rule: get_from.induct) simp_all

lemma get_from_None: "get_from None path = (if path = [] then Inr None else Inl TypeError)"
  by (cases path) simp_all

lemma get_Nil [simp]: "get root [] = Inr (Some root)"
  by (simp add: get_def)

lemma get_Cons: "get root (key # path) = get_from (getChild root key) path"
  by (simp add: get_def)

lemma get_Cons_Some:
  "get root (key # path) = Inr (Some m) \<longleftrightarrow>
     (\<exists>c. getChild root key = Some c \<and> get c path = Inr (Some m))"
  by (cases "getChild root key") (auto simp add: get_def get_from_None)

lemma get_snoc:
  "get root (path @ [key]) =
     (case get root path of
        Inl e \<Rightarrow> Inl e
      | Inr None \<Rightarrow> Inl TypeError
      | Inr (Some parent) \<Rightarrow> Inr (getChild parent key))"
  by (auto simp add: get_def get_from_append split: sum.splits option.splits)

lemma getChild_addChild:
  "getChild (addChild key c m) key' = (if key' = key then Some c else getChild m key')"
  by (simp add: getChild_def addChild_def update_conv')

lemma getChild_removeChild:
  "getChild (removeChild key m) key' = (if key' = key then None else getChild m key')"
  by (simp add: getChild_def removeChild_def delete_conv')

lemma hasChild_getChild: "hasChild m key \<longleftrightarrow> getChild m key \<noteq> None"
  by (simp add: hasChild_def getChild_def map_of_eq_None_iff)

lemma runtime_addChild [simp]: "runtime (addChild key c m) = runtime m"
  by (simp add: addChild_def)

lemma rawModule_addChild [simp]: "rawModule (addChild key c m) = rawModule m"
  by (simp add: addChild_def)

lemma getChild_Module_update [simp]: "getChild (Module_update m new) key = getChild m key"
  by (simp add: getChild_def Module_update_def)

lemma runtime_modify_at:
  "(\<And>x. runtime (f x) = runtime x) \<Longrightarrow> runtime (modify_at path f m) = runtime m"
  by (cases path) (auto split: option.splits)

lemma get_modify_at:
  "get root p = Inr (Some m) \<Longrightarrow> get (modify_at (p @ q) f root) p = Inr (Some (modify_at q f m))"
proof (induction p arbitrary: root)
  case Nil
  then show ?case by simp
next
  case (Cons k p)
  then obtain c where c: "getChild root k = Some c" "get c p = Inr (Some m)"
    by (auto simp add: get_Cons_Some)
  have "get (modify_at (p @ q) f c) p = Inr (Some (modify_at q f m))"
    using Cons.IH c(2) by simp
  then show ?case using c(1) by (simp add: get_Cons getChild_addChild get_def)
qed

lemma get_modify_at_self:
  "get root p = Inr (Some m) \<Longrightarrow> get (modify_at p f root) p = Inr (Some (f m))"
  using get_modify_at [of root p m "[]" f] by simp

lemma get_after_attach:
  assumes "path \<noteq> []" and "get root (butlast path) = Inr (Some parent)"
  shows "get (modify_at (butlast path) (addChild (last path) c) root) path = Inr (Some c)"
proof -
  have "get (modify_at (butlast path) (addChild (last path) c) root) (butlast path @ [last path])
          = Inr (Some c)"
    by (simp add: get_snoc get_modify_at_self [OF assms(2)] getChild_addChild)
  then show ?thesis using assms(1) by simp
qed

lemma get_parent_child:
  assumes "path \<noteq> []" and "get root path = Inr (Some m)"
  shows "\<exists>parent. get root (butlast path) = Inr (Some parent) \<and> getChild parent (last path) = Some m"
proof -
  have "get root (butlast path @ [last path]) = Inr (Some m)" using assms by simp
  then show ?thesis by (auto simp add: get_snoc split: sum.splits option.splits)
qed

text \<open>The example trees are what the constructor builds from their declarations.\<close>

lemma example_root_constructed: "new_ModuleCollection True example_options = Return () example_root"
  by (simp add: new_ModuleCollection_def example_options_def example_root_def user_options_def
      log_options_def user_module_def log_module_def assertRawModule_def assert_table_def
      own_properties_def new_Module_def initial_state_def get_def addChild_def getChild_def)

lemma nested_root_constructed:
  "new_ModuleCollection False nested_options = Return () nested_root"
  by (simp add: new_ModuleCollection_def nested_root_def nested_a_def nested_b_def nested_c_def
      nested_options_def nested_a_options_def nested_b_options_def nested_c_options_def
      own_properties_def new_Module_def initial_state_def get_def addChild_def getChild_def)

subsection \<open>Namespaces\<close>

lemma getNamespace_from_nodes:
  assumes "length ms = length p"
    and "\<forall>i<length p. get m (take (Suc i) p) = Inr (Some (ms ! i))"
  shows "getNamespace_from m ns p =
           Inr (ns @ concat (map2 (\<lambda>k c. if namespaced c then k @ ''/'' else '''') p ms))"
  using assms
proof (induction p arbitrary: m ns ms)
  case Nil
  then show ?case by simp
next
  case (Cons k p)
  then obtain c cs where ms: "ms = c # cs" by (cases ms) auto
  from Cons.prems(2) have "get m (take (Suc 0) (k # p)) = Inr (Some (ms ! 0))" by blast
  then have child: "getChild m k = Some c" by (simp add: ms get_def)
  have "length cs = length p" using Cons.prems(1) ms by simp
  moreover have "\<forall>i<length p. get c (take (Suc i) p) = Inr (Some (cs ! i))"
  proof (intro allI impI)
    fix i assume "i < length p"
    then have "get m (take (Suc (Suc i)) (k # p)) = Inr (Some (ms ! Suc i))"
      using Cons.prems(2) by auto
    then show "get c (take (Suc i) p) = Inr (Some (cs ! i))"
      using child by (simp add: ms get_def)
  qed
  ultimately have "getNamespace_from c (ns @ (if namespaced c then k @ ''/'' else '''')) p =
      Inr ((ns @ (if namespaced c then k @ ''/'' else '''')) @
            concat (map2 (\<lambda>k c. if namespaced c then k @ ''/'' else '''') p cs))"
    by (rule Cons.IH)
  then show ?case using child by (simp add: ms)
qed

text \<open>
  C3. Let every segment of the path \<open>p\<close> resolve, \<open>ms ! i\<close> being the module that the first
  \<open>i + 1\<close> segments lead to. Then \<^verbatim>\<open>getNamespace(p)\<close> returns, in root-to-node order, the
  concatenation of \<^verbatim>\<open>key + "/"\<close> for exactly the nodes on the path whose own \<^verbatim>\<open>namespaced\<close>
  flag is true. A node whose flag is false contributes the empty string, whatever the
  flags of its ancestors.
\<close>

theorem getNamespace_own_flags:
  assumes "length ms = length p"
    and "\<forall>i<length p. get root (take (Suc i) p) = Inr (Some (ms ! i))"
  shows "getNamespace root p =
           Inr (concat (map2 (\<lambda>key m. if namespaced m then key @ ''/'' else '''') p ms))"
  using getNamespace_from_nodes [OF assms, of "''''"] by (simp add: getNamespace_def)

theorem getNamespace_own_flags_witness:
  "get nested_root [''a''] = Inr (Some nested_a)
   \<and> get nested_root [''a'', ''b''] = Inr (Some nested_b)
   \<and> get nested_root [''a'', ''b'', ''c''] = Inr (Some nested_c)
   \<and> namespaced nested_a \<and> \<not> namespaced nested_b \<and> namespaced nested_c
   \<and> getNamespace nested_root [''a'', ''b'', ''c''] = Inr ''a/c/''"
proof -
  have a: "get nested_root [''a''] = Inr (Some nested_a)"
    by (simp add: get_def getChild_def nested_root_def)
  have b: "get nested_root [''a'', ''b''] = Inr (Some nested_b)"
    by (simp add: get_def getChild_def nested_root_def nested_a_def)
  have c: "get nested_root [''a'', ''b'', ''c''] = Inr (Some nested_c)"
    by (simp add: get_def getChild_def nested_root_def nested_a_def nested_b_def)
  have flags: "namespaced nested_a" "\<not> namespaced nested_b" "namespaced nested_c"
    by (simp_all add: namespaced_def nested_a_def nested_b_def nested_c_def
        nested_a_options_def nested_b_options_def nested_c_options_def)
  have len: "length [nested_a, nested_b, nested_c] = length [''a'', ''b'', ''c'']" by simp
  have nodes: "\<forall>i<length [''a'', ''b'', ''c''].
      get nested_root (take (Suc i) [''a'', ''b'', ''c'']) = Inr (Some ([nested_a, nested_b, nested_c] ! i))"
    using a b c by (simp add: All_less_Suc)
  show ?thesis
    using getNamespace_own_flags [OF len nodes] a b c flags by simp
qed

subsection \<open>Lookup of a path with a missing segment\<close>

text \<open>
  C5, as the code has it. Let \<open>p ! i\<close> be the first segment of \<open>p\<close> that does not resolve:
  the segments before it lead to \<open>parent\<close>, which has no child of that key. If it is the
  last segment, \<^verbatim>\<open>get(p)\<close> returns \<^verbatim>\<open>undefined\<close> and raises nothing. If segments follow it,
  \<^verbatim>\<open>get(p)\<close> raises a TypeError: the next step calls \<^verbatim>\<open>getChild\<close> on \<^verbatim>\<open>undefined\<close>.
\<close>

theorem get_missing_segment:
  assumes "i < length p"
    and "get root (take i p) = Inr (Some parent)"
    and "getChild parent (p ! i) = None"
  shows "get root p = (if Suc i = length p then Inr None else Inl TypeError)"
proof -
  have p: "p = take i p @ p ! i # drop (Suc i) p"
    using assms(1) by (simp add: id_take_nth_drop)
  have "get root p = get_from (Some root) (take i p @ p ! i # drop (Suc i) p)"
    unfolding get_def using p by simp
  also have "\<dots> = get_from None (drop (Suc i) p)"
    using assms(2,3) by (simp add: get_from_append get_def)
  also have "\<dots> = (if Suc i = length p then Inr None else Inl TypeError)"
    using assms(1) by (auto simp add: get_from_None)
  finally show ?thesis .
qed

theorem get_missing_segment_witness:
  "get example_root [''user''] = Inr (Some user_module)
   \<and> getChild user_module ''ghost'' = None
   \<and> get example_root [''user'', ''ghost''] = Inr None
   \<and> getChild example_root ''ghost'' = None
   \<and> get example_root [''ghost'', ''user''] = Inl TypeError"
proof -
  have u: "get example_root (take 1 [''user'', ''ghost'']) = Inr (Some user_module)"
    by (simp add: get_def getChild_def example_root_def)
  have g: "getChild user_module ([''user'', ''ghost''] ! 1) = None"
    by (simp add: getChild_def user_module_def)
  have r: "get example_root (take 0 [''ghost'', ''user'']) = Inr (Some example_root)" by simp
  have h: "getChild example_root ([''ghost'', ''user''] ! 0) = None"
    by (simp add: getChild_def example_root_def)
  show ?thesis
    using get_missing_segment [OF _ u g] get_missing_segment [OF _ r h] u g h by simp
qed

text \<open>The statement of C5 fails where a segment follows the missing one: the root of the
  example has no child \<^verbatim>\<open>ghost\<close>, and \<^verbatim>\<open>get(["ghost", "user"])\<close> raises instead of returning
  \<^verbatim>\<open>undefined\<close>.\<close>

theorem get_raises_counterexample:
  "getChild example_root ''ghost'' = None
   \<and> get example_root [''ghost'', ''user''] = Inl TypeError
   \<and> get example_root [''ghost'', ''user''] \<noteq> Inr None"
  by (simp add: get_def getChild_def example_root_def)

subsection \<open>Registering and unregistering\<close>

text \<open>Registering below a module leaves every module above the new one in place, with its
  runtime flag.\<close>

lemma register_keeps_ancestors:
  "register dev path raw rt root = Return u r \<Longrightarrow> path = p @ q \<Longrightarrow> q \<noteq> [] \<Longrightarrow>
     get root p = Inr (Some m) \<Longrightarrow> \<exists>m'. get r p = Inr (Some m') \<and> runtime m' = runtime m"
  "register_children dev path mods rt root = Return u r \<Longrightarrow> path = p @ q \<Longrightarrow>
     get root p = Inr (Some m) \<Longrightarrow> \<exists>m'. get r p = Inr (Some m') \<and> runtime m' = runtime m"
proof (induction dev path raw rt root and dev path mods rt root
    arbitrary: u r p q m and u r p q m rule: register_register_children.induct)
  case (1 dev path raw rt root)
  from "1.prems"(2,3) have ne: "path \<noteq> []" by simp
  let ?f = "addChild (last path) (new_Module raw rt)"
  let ?r1 = "modify_at (butlast path) ?f root"
  from "1.prems"(1) ne have noassert: "(if dev then assertRawModule raw else None) = None"
    by (auto split: option.splits)
  from "1.prems"(1) ne noassert obtain parent where
    parent: "get root (butlast path) = Inr (Some parent)"
    by (auto split: sum.splits option.splits)
  have attach: "(if path = [] then Return () (new_Module raw rt)
                else (case get root (butlast path) of
                        Inl e \<Rightarrow> Throw e root
                      | Inr None \<Rightarrow> Throw TypeError root
                      | Inr (Some parent) \<Rightarrow> Return () ?r1)) = Return () ?r1"
    using ne parent by simp
  have kids: "register_children dev path (modules_raw raw) rt ?r1 = Return u r"
    using "1.prems"(1) ne noassert parent by simp
  have bl: "butlast path = p @ butlast q" using "1.prems"(2,3) by (simp add: butlast_append)
  have g1: "get ?r1 p = Inr (Some (modify_at (butlast q) ?f m))"
    unfolding bl by (rule get_modify_at [OF "1.prems"(4)])
  have rt1: "runtime (modify_at (butlast q) ?f m) = runtime m"
    by (rule runtime_modify_at) simp
  have "\<exists>m'. get r p = Inr (Some m') \<and> runtime m' = runtime (modify_at (butlast q) ?f m)"
    by (rule "1.IH"[OF noassert attach kids "1.prems"(2) g1])
  then show ?case using rt1 by simp
next
  case (2 dev path rt root)
  then show ?case by simp
next
  case (3 dev path key rawChildModule rest rt root)
  from "3.prems"(1) obtain u1 r1 where
    first: "register dev (path @ [key]) rawChildModule rt root = Return u1 r1"
    and rest: "register_children dev path rest rt r1 = Return u r"
    by (auto split: result.splits)
  have "\<exists>m'. get r1 p = Inr (Some m') \<and> runtime m' = runtime m"
    by (rule "3.IH"(1) [OF first _ _ "3.prems"(3), of "q @ [key]"]) (use "3.prems"(2) in simp_all)
  then obtain m1 where m1: "get r1 p = Inr (Some m1)" "runtime m1 = runtime m" by blast
  have "\<exists>m'. get r p = Inr (Some m') \<and> runtime m' = runtime m1"
    by (rule "3.IH"(2) [OF first rest "3.prems"(2) m1(1)])
  then show ?case using m1(2) by simp
qed

text \<open>\<^verbatim>\<open>register\<close> returns when the parent resolves and, in a development build, the
  declaration passes the assertions.\<close>

lemma register_returns:
  "(dev \<longrightarrow> valid_declaration raw) \<Longrightarrow>
     path = [] \<or> (\<exists>parent. get root (butlast path) = Inr (Some parent)) \<Longrightarrow>
     \<exists>r. register dev path raw rt root = Return () r"
  "(dev \<longrightarrow> valid_declarations mods) \<Longrightarrow> (\<exists>m. get root path = Inr (Some m)) \<Longrightarrow>
     \<exists>r. register_children dev path mods rt root = Return () r"
proof (induction dev path raw rt root and dev path mods rt root
    rule: register_register_children.induct)
  case (1 dev path raw rt root)
  have noassert: "(if dev then assertRawModule raw else None) = None"
    using "1.prems"(1) by simp
  have kidsok: "dev \<longrightarrow> valid_declarations (modules_raw raw)"
    using "1.prems"(1) by simp
  show ?case
  proof (cases "path = []")
    case True
    have attach: "(if path = [] then Return () (new_Module raw rt)
                else (case get root (butlast path) of
                        Inl e \<Rightarrow> Throw e root
                      | Inr None \<Rightarrow> Throw TypeError root
                      | Inr (Some parent) \<Rightarrow> Return () (modify_at (butlast path)
                                       (addChild (last path) (new_Module raw rt)) root)))
                 = Return () (new_Module raw rt)"
      using True by simp
    have "\<exists>r. register_children dev path (modules_raw raw) rt (new_Module raw rt) = Return () r"
      by (rule "1.IH" [OF noassert attach kidsok]) (simp add: True)
    then show ?thesis using noassert True by simp
  next
    case False
    then obtain parent where parent: "get root (butlast path) = Inr (Some parent)"
      using "1.prems"(2) by blast
    let ?r1 = "modify_at (butlast path) (addChild (last path) (new_Module raw rt)) root"
    have attach: "(if path = [] then Return () (new_Module raw rt)
                else (case get root (butlast path) of
                        Inl e \<Rightarrow> Throw e root
                      | Inr None \<Rightarrow> Throw TypeError root
                      | Inr (Some parent) \<Rightarrow> Return () ?r1)) = Return () ?r1"
      using False parent by simp
    have "\<exists>m. get ?r1 path = Inr (Some m)"
      using get_after_attach [OF False parent] by blast
    then have "\<exists>r. register_children dev path (modules_raw raw) rt ?r1 = Return () r"
      by (rule "1.IH" [OF noassert attach kidsok])
    then show ?thesis using noassert False parent by simp
  qed
next
  case (2 dev path rt root)
  then show ?case by simp
next
  case (3 dev path key rawChildModule rest rt root)
  from "3.prems"(2) obtain m where m: "get root path = Inr (Some m)" by blast
  have "\<exists>r. register dev (path @ [key]) rawChildModule rt root = Return () r"
    by (rule "3.IH"(1)) (use "3.prems"(1) m in simp_all)
  then obtain r1 where first: "register dev (path @ [key]) rawChildModule rt root = Return () r1"
    by blast
  have "\<exists>m'. get r1 path = Inr (Some m') \<and> runtime m' = runtime m"
    by (rule register_keeps_ancestors(1) [OF first _ _ m, of "[key]"]) simp_all
  then have ex: "\<exists>m. get r1 path = Inr (Some m)" by blast
  have ok: "dev \<longrightarrow> valid_declarations rest" using "3.prems"(1) by simp
  have "\<exists>r. register_children dev path rest rt r1 = Return () r"
    by (rule "3.IH"(2) [OF first ok ex])
  then show ?case using first by simp
qed

lemma register_module_at_path:
  assumes "path \<noteq> []"
    and "register dev path raw rt root = Return u r"
  shows "\<exists>m. get r path = Inr (Some m) \<and> runtime m = rt"
proof -
  let ?r1 = "modify_at (butlast path) (addChild (last path) (new_Module raw rt)) root"
  from assms have noassert: "(if dev then assertRawModule raw else None) = None"
    by (auto split: option.splits)
  from assms noassert obtain parent where
    parent: "get root (butlast path) = Inr (Some parent)"
    by (auto split: sum.splits option.splits)
  have kids: "register_children dev path (modules_raw raw) rt ?r1 = Return u r"
    using assms noassert parent by simp
  have g1: "get ?r1 path = Inr (Some (new_Module raw rt))"
    by (rule get_after_attach [OF assms(1) parent])
  have "\<exists>m'. get r path = Inr (Some m') \<and> runtime m' = runtime (new_Module raw rt)"
    by (rule register_keeps_ancestors(2) [OF kids _ g1, of "[]"]) simp
  then show ?thesis by (simp add: new_Module_def)
qed

lemma isRegistered_of_get:
  assumes "path \<noteq> []" and "get root path = Inr (Some m)"
  shows "isRegistered root path = Inr True"
  using get_parent_child [OF assms] assms(1)
  by (auto simp add: isRegistered_def last_key_def hasChild_getChild)

lemma unregister_runtime:
  assumes "path \<noteq> []" and "get root path = Inr (Some m)" and "runtime m"
  shows "unregister path root = Return () (modify_at (butlast path) (removeChild (last path)) root)"
    and "isRegistered (modify_at (butlast path) (removeChild (last path)) root) path = Inr False"
proof -
  from get_parent_child [OF assms(1,2)] obtain parent where
    parent: "get root (butlast path) = Inr (Some parent)" "getChild parent (last path) = Some m"
    by blast
  show "unregister path root = Return () (modify_at (butlast path) (removeChild (last path)) root)"
    using parent assms(1,3) by (simp add: unregister_def last_key_def)
  show "isRegistered (modify_at (butlast path) (removeChild (last path)) root) path = Inr False"
    using assms(1)
    by (simp add: isRegistered_def get_modify_at_self [OF parent(1)] last_key_def
        hasChild_getChild getChild_removeChild)
qed

lemma unregister_not_runtime:
  assumes "path \<noteq> []" and "get root path = Inr (Some m)" and "\<not> runtime m"
  shows "unregister path root = Return () root"
proof -
  from get_parent_child [OF assms(1,2)] obtain parent where
    parent: "get root (butlast path) = Inr (Some parent)" "getChild parent (last path) = Some m"
    by blast
  show ?thesis using parent assms(1,3) by (simp add: unregister_def last_key_def)
qed

text \<open>
  C4. Let \<open>path\<close> be non-empty with a parent prefix that resolves (and, in a development
  build, let the declaration pass the assertions, so that \<^verbatim>\<open>register\<close> does not throw).
  Then \<^verbatim>\<open>register(path, decl, true)\<close> returns, after it \<^verbatim>\<open>isRegistered(path)\<close> is true, a
  following \<^verbatim>\<open>unregister(path)\<close> returns and after it \<^verbatim>\<open>isRegistered(path)\<close> is false. When
  the module was registered with \<^verbatim>\<open>runtime = false\<close>, \<^verbatim>\<open>unregister(path)\<close> returns the tree
  unchanged.
\<close>

theorem register_unregister_roundtrip:
  assumes "path \<noteq> []"
    and "get root (butlast path) = Inr (Some parent)"
    and "dev \<longrightarrow> valid_declaration decl"
  shows "(\<exists>r1 r2. register dev path decl True root = Return () r1
           \<and> isRegistered r1 path = Inr True
           \<and> unregister path r1 = Return () r2
           \<and> isRegistered r2 path = Inr False)
       \<and> (\<exists>r. register dev path decl False root = Return () r
           \<and> isRegistered r path = Inr True
           \<and> unregister path r = Return () r)"
proof -
  have par: "path = [] \<or> (\<exists>parent. get root (butlast path) = Inr (Some parent))"
    using assms(2) by blast
  from register_returns(1) [OF assms(3) par] obtain r1 where
    r1: "register dev path decl True root = Return () r1" by blast
  from register_module_at_path [OF assms(1) r1] obtain m where
    m: "get r1 path = Inr (Some m)" "runtime m" by blast
  have first: "\<exists>r1 r2. register dev path decl True root = Return () r1
           \<and> isRegistered r1 path = Inr True
           \<and> unregister path r1 = Return () r2
           \<and> isRegistered r2 path = Inr False"
    using r1 isRegistered_of_get [OF assms(1) m(1)] unregister_runtime [OF assms(1) m] by blast
  from register_returns(1) [OF assms(3) par] obtain r where
    r: "register dev path decl False root = Return () r" by blast
  from register_module_at_path [OF assms(1) r] obtain m' where
    m': "get r path = Inr (Some m')" "\<not> runtime m'" by blast
  have second: "\<exists>r. register dev path decl False root = Return () r
           \<and> isRegistered r path = Inr True
           \<and> unregister path r = Return () r"
    using r isRegistered_of_get [OF assms(1) m'(1)] unregister_not_runtime [OF assms(1) m'] by blast
  show ?thesis using first second by blast
qed

theorem register_unregister_roundtrip_witness:
  "get example_root [''user''] = Inr (Some user_module)
   \<and> valid_declaration profile_options
   \<and> isRegistered example_root [''user'', ''profile''] = Inr False
   \<and> (\<exists>r1 r2. register True [''user'', ''profile''] profile_options True example_root = Return () r1
           \<and> isRegistered r1 [''user'', ''profile''] = Inr True
           \<and> unregister [''user'', ''profile''] r1 = Return () r2
           \<and> isRegistered r2 [''user'', ''profile''] = Inr False)
   \<and> (\<exists>r. register True [''user'', ''profile''] profile_options False example_root = Return () r
           \<and> isRegistered r [''user'', ''profile''] = Inr True
           \<and> unregister [''user'', ''profile''] r = Return () r)"
proof -
  have ne: "[''user'', ''profile''] \<noteq> []" by simp
  have parent: "get example_root (butlast [''user'', ''profile'']) = Inr (Some user_module)"
    by (simp add: get_def getChild_def example_root_def)
  have valid: "True \<longrightarrow> valid_declaration profile_options"
    by (simp add: profile_options_def assertRawModule_def assert_table_def)
  have before: "isRegistered example_root [''user'', ''profile''] = Inr False"
    by (simp add: isRegistered_def get_def getChild_def example_root_def hasChild_def
        user_module_def last_key_def)
  show ?thesis
    using register_unregister_roundtrip [OF ne parent valid] parent valid before by simp
qed

subsection \<open>Hot update\<close>

lemma skeleton_Module [simp]:
  "skeleton (Module rt cs raw st) = Frame rt (skeletons cs) st (state_own raw)"
  by simp

declare skeleton.simps [simp del]

declare update.simps [simp del]

lemma skeletons_update:
  "map_of cs key = Some c \<Longrightarrow> skeleton c' = skeleton c \<Longrightarrow>
     skeletons (AList.update key c' cs) = skeletons cs"
  by (induction cs) auto

lemma skeleton_addChild:
  "getChild m key = Some c \<Longrightarrow> skeleton c' = skeleton c \<Longrightarrow> skeleton (addChild key c' m) = skeleton m"
  by (cases m) (simp add: addChild_def getChild_def skeletons_update)

lemma skeleton_Module_update: "skeleton (Module_update m new) = skeleton m"
  by (cases m) (simp add: Module_update_def)

text \<open>Whether it returns or throws, the walk leaves keys, runtime flags and states alone.\<close>

lemma update_keeps_skeleton:
  "skeleton (fst (result_state (update dev path target new console))) = skeleton target"
  "skeleton (fst (result_state (update_children dev path target mods console))) = skeleton target"
proof (induction dev path target new console and dev path target mods console
    rule: update_update_children.induct)
  case (1 dev path targetModule newModule console)
  show ?case
  proof (cases "(if dev then assertRawModule newModule else None)")
    case None
    then show ?thesis using "1.IH" [OF None] by (simp add: skeleton_Module_update update.simps)
  next
    case (Some e)
    then show ?thesis by (simp add: update.simps)
  qed
next
  case (2 dev path targetModule console)
  then show ?case by simp
next
  case (3 dev path targetModule key newChild rest console)
  show ?case
  proof (cases "getChild targetModule key")
    case None
    then show ?thesis by simp
  next
    case (Some child)
    note ih1 = "3.IH"(1) [OF Some]
    show ?thesis
    proof (cases "update dev (path @ [key]) child newChild console")
      case (Return u s)
      obtain child' console' where s: "s = (child', console')" by (cases s)
      have sk: "skeleton child' = skeleton child" using ih1 Return s by simp
      have "skeleton (fst (result_state (update_children dev path (addChild key child' targetModule) rest console')))
            = skeleton (addChild key child' targetModule)"
        using "3.IH"(2) [OF Some Return [unfolded s] refl] by simp
      then show ?thesis using Some Return s sk by (simp add: skeleton_addChild)
    next
      case (Throw e s)
      obtain child' console' where s: "s = (child', console')" by (cases s)
      have sk: "skeleton child' = skeleton child" using ih1 Throw s by simp
      then show ?thesis using Some Throw s by (simp add: skeleton_addChild)
    qed
  qed
qed

text \<open>At the first unknown key the loop stops: what follows the key is never looked at.\<close>

lemma update_children_abort:
  assumes "\<forall>key \<in> fst ` set pre. getChild target key \<noteq> None"
    and "getChild target k = None"
  shows "update_children dev path target (pre @ (k, d) # post) console =
           (case update_children dev path target pre console of
              Throw e s \<Rightarrow> Throw e s
            | Return u (target', console') \<Rightarrow>
                Return () (target', if dev then console' @ [new_module_warning k] else console'))"
  using assms
proof (induction pre arbitrary: target console)
  case Nil
  then show ?case by simp
next
  case (Cons a pre)
  obtain key nd where a: "a = (key, nd)" by (cases a)
  from Cons.prems(1) a obtain child where child: "getChild target key = Some child" by auto
  have kk: "k \<noteq> key" using child Cons.prems(2) by auto
  show ?case
  proof (cases "update dev (path @ [key]) child nd console")
    case (Return u s)
    obtain child' console' where s: "s = (child', console')" by (cases s)
    have "update_children dev path (addChild key child' target) (pre @ (k, d) # post) console' =
           (case update_children dev path (addChild key child' target) pre console' of
              Throw e s \<Rightarrow> Throw e s
            | Return u (target', console') \<Rightarrow>
                Return () (target', if dev then console' @ [new_module_warning k] else console'))"
      by (rule Cons.IH) (use Cons.prems kk in \<open>auto simp add: getChild_addChild\<close>)
    then show ?thesis using a child Return s by simp
  next
    case (Throw e s)
    obtain child' console' where s: "s = (child', console')" by (cases s)
    show ?thesis using a child Throw s by simp
  qed
qed

text \<open>Keys that were processed hold their updated modules, all other keys what they held.\<close>

lemma update_children_processed:
  assumes "update_children dev path target pre console = Return u (target', console')"
    and "\<forall>key \<in> fst ` set pre. getChild target key \<noteq> None"
    and "distinct (map fst pre)"
  shows "(\<forall>(key, nd) \<in> set pre. \<exists>c c' con0 con1.
            getChild target key = Some c
          \<and> update dev (path @ [key]) c nd con0 = Return () (c', con1)
          \<and> getChild target' key = Some c')
       \<and> (\<forall>key. key \<notin> fst ` set pre \<longrightarrow> getChild target' key = getChild target key)"
  using assms
proof (induction pre arbitrary: target console)
  case Nil
  then show ?case by simp
next
  case (Cons a pre)
  obtain key nd where a: "a = (key, nd)" by (cases a)
  from Cons.prems(2) a obtain child where child: "getChild target key = Some child" by auto
  from Cons.prems(1) a child obtain child' con1 where
    first: "update dev (path @ [key]) child nd console = Return () (child', con1)"
    and rest: "update_children dev path (addChild key child' target) pre con1 = Return u (target', console')"
    by (auto split: result.splits)
  have notin: "key \<notin> fst ` set pre" using Cons.prems(3) a by auto
  have ih: "(\<forall>(key', nd) \<in> set pre. \<exists>c c' con0 con1.
            getChild (addChild key child' target) key' = Some c
          \<and> update dev (path @ [key']) c nd con0 = Return () (c', con1)
          \<and> getChild target' key' = Some c')
       \<and> (\<forall>key'. key' \<notin> fst ` set pre \<longrightarrow> getChild target' key' = getChild (addChild key child' target) key')"
    by (rule Cons.IH [OF rest]) (use Cons.prems(2,3) a in \<open>auto simp add: getChild_addChild\<close>)
  have here: "getChild target' key = Some child'"
    using ih notin by (simp add: getChild_addChild)
  have p1: "\<forall>(key', nd') \<in> set (a # pre). \<exists>c c' con0 con1.
            getChild target key' = Some c
          \<and> update dev (path @ [key']) c nd' con0 = Return () (c', con1)
          \<and> getChild target' key' = Some c'"
  proof (clarify)
    fix key' nd' assume mem: "(key', nd') \<in> set (a # pre)"
    show "\<exists>c c' con0 con1. getChild target key' = Some c
          \<and> update dev (path @ [key']) c nd' con0 = Return () (c', con1)
          \<and> getChild target' key' = Some c'"
    proof (cases "(key', nd') = a")
      case True
      then show ?thesis using a child first here by blast
    next
      case False
      then have in_pre: "(key', nd') \<in> set pre" using mem by simp
      then have ne: "key' \<noteq> key" using notin by force
      from ih in_pre obtain c c' con0 con1' where
        "getChild (addChild key child' target) key' = Some c"
        "update dev (path @ [key']) c nd' con0 = Return () (c', con1')"
        "getChild target' key' = Some c'" by blast
      then show ?thesis using ne by (auto simp add: getChild_addChild)
    qed
  qed
  have p2: "\<forall>key'. key' \<notin> fst ` set (a # pre) \<longrightarrow> getChild target' key' = getChild target key'"
    using ih a by (auto simp add: getChild_addChild)
  show ?case using p1 p2 by blast
qed

text \<open>The loop over the new children writes into the children only: what the module's own
  declaration holds when the walk is over is what \<^verbatim>\<open>Module.update\<close> assigned.\<close>

lemma update_children_keeps_declaration:
  "rawModule (fst (result_state (update_children dev path target mods console))) = rawModule target"
proof (induction mods arbitrary: target console)
  case Nil
  show ?case by simp
next
  case (Cons a mods)
  obtain key nd where a: "a = (key, nd)" by (cases a)
  show ?case
  proof (cases "getChild target key")
    case None
    then show ?thesis using a by simp
  next
    case (Some child)
    show ?thesis
    proof (cases "update dev (path @ [key]) child nd console")
      case (Return u s)
      obtain child' console' where s: "s = (child', console')" by (cases s)
      show ?thesis
        using a Some Return s Cons.IH [of "addChild key child' target" console'] by simp
    next
      case (Throw e s)
      obtain child' console' where s: "s = (child', console')" by (cases s)
      show ?thesis using a Some Throw s by simp
    qed
  qed
qed

lemma update_returns_declaration:
  assumes "update dev path target new console = Return u (target', console')"
  shows "namespaced_own (rawModule target') = namespaced_raw new"
    and "getters_own (rawModule target') =
           (case getters_raw new of Some t \<Rightarrow> Some t | None \<Rightarrow> getters_own (rawModule target))"
    and "mutations_own (rawModule target') =
           (case mutations_raw new of Some t \<Rightarrow> Some t | None \<Rightarrow> mutations_own (rawModule target))"
    and "actions_own (rawModule target') =
           (case actions_raw new of Some t \<Rightarrow> Some t | None \<Rightarrow> actions_own (rawModule target))"
proof -
  from assms have
    "update_children dev path (Module_update target new) (modules_raw new) console
       = Return u (target', console')"
    by (auto simp add: update.simps split: option.splits if_splits)
  then have own: "rawModule target' = rawModule (Module_update target new)"
    using update_children_keeps_declaration
      [of dev path "Module_update target new" "modules_raw new" console] by simp
  show "namespaced_own (rawModule target') = namespaced_raw new"
    unfolding own by (simp add: Module_update_def)
  show "getters_own (rawModule target') =
           (case getters_raw new of Some t \<Rightarrow> Some t | None \<Rightarrow> getters_own (rawModule target))"
    unfolding own by (simp add: Module_update_def)
  show "mutations_own (rawModule target') =
           (case mutations_raw new of Some t \<Rightarrow> Some t | None \<Rightarrow> mutations_own (rawModule target))"
    unfolding own by (simp add: Module_update_def)
  show "actions_own (rawModule target') =
           (case actions_raw new of Some t \<Rightarrow> Some t | None \<Rightarrow> actions_own (rawModule target))"
    unfolding own by (simp add: Module_update_def)
qed

text \<open>Outside a development build nothing is written to the console.\<close>

lemma update_production_console:
  "\<not> dev \<Longrightarrow> snd (result_state (update dev path target new console)) = console"
  "\<not> dev \<Longrightarrow> snd (result_state (update_children dev path target mods console)) = console"
proof (induction dev path target new console and dev path target mods console
    rule: update_update_children.induct)
  case (1 dev path targetModule newModule console)
  then show ?case by (simp add: update.simps)
next
  case (2 dev path targetModule console)
  then show ?case by simp
next
  case (3 dev path targetModule key newChild rest console)
  show ?case
  proof (cases "getChild targetModule key")
    case None
    then show ?thesis using "3.prems" by simp
  next
    case (Some child)
    note ih1 = "3.IH"(1) [OF Some "3.prems"]
    show ?thesis
    proof (cases "update dev (path @ [key]) child newChild console")
      case (Return u s)
      obtain child' console' where s: "s = (child', console')" by (cases s)
      have con: "console' = console" using ih1 Return s by simp
      show ?thesis
        using "3.IH"(2) [OF Some Return [unfolded s] refl "3.prems"] Some Return s con by simp
    next
      case (Throw e s)
      obtain child' console' where s: "s = (child', console')" by (cases s)
      have con: "console' = console" using ih1 Throw s by simp
      show ?thesis using Some Throw s con by simp
    qed
  qed
qed

text \<open>
  C6. The hot-update walk never changes the structure of the tree or a state: whatever
  the new declaration is and however the walk ends, the keys, runtime flags and states of
  the whole tree are what they were. When the new declaration lists, after known and
  distinct keys \<open>pre\<close>, a key \<open>k\<close> that the target module does not have, and the walk
  returns, then \<open>k\<close> has not been added. The target module holds the namespaced flag of
  the new declaration and each table of getters, mutations and actions that the new
  declaration has, its old table where the new declaration has none. The child under each
  key of \<open>pre\<close> is the result of the recursive update of the old child with its new
  declaration and holds, in the same way, the flag and the tables of that declaration.
  Every other child, those listed after \<open>k\<close> included, is untouched. In a development
  build the last line on the console is the warning about \<open>k\<close>; in a production build
  nothing is written to the console.
\<close>

theorem hot_update_unknown_module:
  "skeleton (fst (result_state (update dev path target new console))) = skeleton target
   \<and> (modules_raw new = pre @ (k, d) # post
       \<and> distinct (map fst pre)
       \<and> (\<forall>key \<in> fst ` set pre. getChild target key \<noteq> None)
       \<and> getChild target k = None
       \<and> update dev path target new console = Return u (target', console')
     \<longrightarrow> getChild target' k = None
       \<and> namespaced_own (rawModule target') = namespaced_raw new
       \<and> getters_own (rawModule target') =
           (case getters_raw new of Some t \<Rightarrow> Some t | None \<Rightarrow> getters_own (rawModule target))
       \<and> mutations_own (rawModule target') =
           (case mutations_raw new of Some t \<Rightarrow> Some t | None \<Rightarrow> mutations_own (rawModule target))
       \<and> actions_own (rawModule target') =
           (case actions_raw new of Some t \<Rightarrow> Some t | None \<Rightarrow> actions_own (rawModule target))
       \<and> (\<forall>(key, nd) \<in> set pre. \<exists>c c' con0 con1.
              getChild target key = Some c
            \<and> getChild target' key = Some c'
            \<and> update dev (path @ [key]) c nd con0 = Return () (c', con1)
            \<and> namespaced_own (rawModule c') = namespaced_raw nd
            \<and> getters_own (rawModule c') =
                (case getters_raw nd of Some t \<Rightarrow> Some t | None \<Rightarrow> getters_own (rawModule c))
            \<and> mutations_own (rawModule c') =
                (case mutations_raw nd of Some t \<Rightarrow> Some t | None \<Rightarrow> mutations_own (rawModule c))
            \<and> actions_own (rawModule c') =
                (case actions_raw nd of Some t \<Rightarrow> Some t | None \<Rightarrow> actions_own (rawModule c)))
       \<and> (\<forall>key. key \<notin> fst ` set pre \<longrightarrow> getChild target' key = getChild target key)
       \<and> (dev \<longrightarrow> console' \<noteq> [] \<and> last console' = new_module_warning k)
       \<and> (\<not> dev \<longrightarrow> console' = console))"
proof -
  have frame: "skeleton (fst (result_state (update dev path target new console))) = skeleton target"
    by (rule update_keeps_skeleton(1))
  have abort: "getChild target' k = None
       \<and> namespaced_own (rawModule target') = namespaced_raw new
       \<and> getters_own (rawModule target') =
           (case getters_raw new of Some t \<Rightarrow> Some t | None \<Rightarrow> getters_own (rawModule target))
       \<and> mutations_own (rawModule target') =
           (case mutations_raw new of Some t \<Rightarrow> Some t | None \<Rightarrow> mutations_own (rawModule target))
       \<and> actions_own (rawModule target') =
           (case actions_raw new of Some t \<Rightarrow> Some t | None \<Rightarrow> actions_own (rawModule target))
       \<and> (\<forall>(key, nd) \<in> set pre. \<exists>c c' con0 con1.
              getChild target key = Some c
            \<and> getChild target' key = Some c'
            \<and> update dev (path @ [key]) c nd con0 = Return () (c', con1)
            \<and> namespaced_own (rawModule c') = namespaced_raw nd
            \<and> getters_own (rawModule c') =
                (case getters_raw nd of Some t \<Rightarrow> Some t | None \<Rightarrow> getters_own (rawModule c))
            \<and> mutations_own (rawModule c') =
                (case mutations_raw nd of Some t \<Rightarrow> Some t | None \<Rightarrow> mutations_own (rawModule c))
            \<and> actions_own (rawModule c') =
                (case actions_raw nd of Some t \<Rightarrow> Some t | None \<Rightarrow> actions_own (rawModule c)))
       \<and> (\<forall>key. key \<notin> fst ` set pre \<longrightarrow> getChild target' key = getChild target key)
       \<and> (dev \<longrightarrow> console' \<noteq> [] \<and> last console' = new_module_warning k)
       \<and> (\<not> dev \<longrightarrow> console' = console)"
    if mods: "modules_raw new = pre @ (k, d) # post"
      and dist: "distinct (map fst pre)"
      and known: "\<forall>key \<in> fst ` set pre. getChild target key \<noteq> None"
      and unknown: "getChild target k = None"
      and ret: "update dev path target new console = Return u (target', console')"
  proof -
    let ?t = "Module_update target new"
    from ret have noassert: "(if dev then assertRawModule new else None) = None"
      by (auto simp add: update.simps split: option.splits)
    have present: "\<forall>key \<in> fst ` set pre. getChild ?t key \<noteq> None" using known by simp
    have absent: "getChild ?t k = None" using unknown by simp
    have run: "update_children dev path ?t (pre @ (k, d) # post) console = Return u (target', console')"
      using ret noassert mods by (simp add: update.simps)
    from run obtain u0 con0 where
      pre: "update_children dev path ?t pre console = Return u0 (target', con0)"
      and con: "console' = (if dev then con0 @ [new_module_warning k] else con0)"
      unfolding update_children_abort [OF present absent]
      by (auto split: result.splits prod.splits)
    note facts = update_children_processed [OF pre present dist]
    have knotin: "k \<notin> fst ` set pre" using known unknown by auto
    have c1: "getChild target' k = None" using facts knotin unknown by simp
    note own = update_returns_declaration [OF ret]
    have c3: "\<forall>(key, nd) \<in> set pre. \<exists>c c' con0 con1.
              getChild target key = Some c
            \<and> getChild target' key = Some c'
            \<and> update dev (path @ [key]) c nd con0 = Return () (c', con1)
            \<and> namespaced_own (rawModule c') = namespaced_raw nd
            \<and> getters_own (rawModule c') =
                (case getters_raw nd of Some t \<Rightarrow> Some t | None \<Rightarrow> getters_own (rawModule c))
            \<and> mutations_own (rawModule c') =
                (case mutations_raw nd of Some t \<Rightarrow> Some t | None \<Rightarrow> mutations_own (rawModule c))
            \<and> actions_own (rawModule c') =
                (case actions_raw nd of Some t \<Rightarrow> Some t | None \<Rightarrow> actions_own (rawModule c))"
    proof (clarify)
      fix key nd assume mem: "(key, nd) \<in> set pre"
      from facts mem obtain c c' con0 con1 where
        old: "getChild ?t key = Some c"
        and sub: "update dev (path @ [key]) c nd con0 = Return () (c', con1)"
        and new: "getChild target' key = Some c'"
        by blast
      have old': "getChild target key = Some c" using old by simp
      note child = update_returns_declaration [OF sub]
      show "\<exists>c c' con0 con1.
              getChild target key = Some c
            \<and> getChild target' key = Some c'
            \<and> update dev (path @ [key]) c nd con0 = Return () (c', con1)
            \<and> namespaced_own (rawModule c') = namespaced_raw nd
            \<and> getters_own (rawModule c') =
                (case getters_raw nd of Some t \<Rightarrow> Some t | None \<Rightarrow> getters_own (rawModule c))
            \<and> mutations_own (rawModule c') =
                (case mutations_raw nd of Some t \<Rightarrow> Some t | None \<Rightarrow> mutations_own (rawModule c))
            \<and> actions_own (rawModule c') =
                (case actions_raw nd of Some t \<Rightarrow> Some t | None \<Rightarrow> actions_own (rawModule c))"
        using old' new sub child by blast
    qed
    have c4: "\<forall>key. key \<notin> fst ` set pre \<longrightarrow> getChild target' key = getChild target key"
      using facts by simp
    have c5: "dev \<longrightarrow> console' \<noteq> [] \<and> last console' = new_module_warning k" using con by simp
    have c6: "\<not> dev \<longrightarrow> console' = console"
    proof
      assume production: "\<not> dev"
      then have "update False path target new console = Return u (target', console')"
        using ret by simp
      then show "console' = console"
        using update_production_console(1) [OF production, of path target new console] production
        by simp
    qed
    show ?thesis using c1 own c3 c4 c5 c6 by blast
  qed
  show ?thesis using frame abort by blast
qed

lemma hot_update_example:
  "update dev [] example_root hot_options [] =
     Return () (hot_root, if dev then [new_module_warning ''ghost''] else [])"
  by (simp add: update.simps hot_options_def hot_user_def hot_root_def example_root_def
      example_options_def user_options_def log_options_def user_module_def log_module_def
      own_properties_def assertRawModule_def assert_table_def
      Module_update_def getChild_def addChild_def)

theorem hot_update_unknown_module_witness:
  "ModuleCollection_update True hot_options example_root [] =
     Return () (hot_root, [new_module_warning ''ghost''])
   \<and> getChild example_root ''ghost'' = None
   \<and> getChild hot_root ''ghost'' = None
   \<and> skeleton hot_root = skeleton example_root
   \<and> namespaced_own (rawModule hot_root) = JBool True
   \<and> getters_own (rawModule hot_root) = None
   \<and> mutations_own (rawModule hot_root) = Some [(''inc'', JFun 31)]
   \<and> actions_own (rawModule hot_root) = Some [(''incAsync'', JFun 12)]
   \<and> (\<exists>c'. getChild hot_root ''user'' = Some c'
         \<and> namespaced_own (rawModule c') = JUndefined
         \<and> getters_own (rawModule c') = Some [(''upper'', JFun 34)]
         \<and> mutations_own (rawModule c') = Some [(''setName'', JFun 33)]
         \<and> actions_own (rawModule c') = None)
   \<and> getChild hot_root ''log'' = Some log_module"
proof -
  have run: "update True [] example_root hot_options [] = Return () (hot_root, [new_module_warning ''ghost''])"
    by (simp add: hot_update_example)
  have mods: "modules_raw hot_options =
      [(''user'', hot_user)] @ (''ghost'', RawModule JUndefined (StateValue JNull) None None None [])
        # [(''log'', RawModule (JBool True) (StateValue JNull) None None None [])]"
    by (simp add: hot_options_def)
  have dist: "distinct (map fst [(''user'', hot_user)])" by simp
  have known: "\<forall>key \<in> fst ` set [(''user'', hot_user)]. getChild example_root key \<noteq> None"
    by (simp add: getChild_def example_root_def)
  have unknown: "getChild example_root ''ghost'' = None"
    by (simp add: getChild_def example_root_def)
  have user: "getChild example_root ''user'' = Some user_module"
    by (simp add: getChild_def example_root_def)
  have log: "getChild example_root ''log'' = Some log_module"
    by (simp add: getChild_def example_root_def)
  have old: "getters_own (rawModule example_root) = None"
    "actions_own (rawModule example_root) = Some [(''incAsync'', JFun 12)]"
    "getters_raw hot_options = None" "actions_raw hot_options = None"
    "mutations_raw hot_options = Some [(''inc'', JFun 31)]"
    "namespaced_raw hot_options = JBool True"
    by (simp_all add: example_root_def example_options_def hot_options_def)
  have old_user: "actions_own (rawModule user_module) = None"
    "namespaced_raw hot_user = JUndefined" "getters_raw hot_user = Some [(''upper'', JFun 34)]"
    "mutations_raw hot_user = Some [(''setName'', JFun 33)]" "actions_raw hot_user = None"
    by (simp_all add: user_module_def user_options_def hot_user_def)
  have main: "skeleton hot_root = skeleton example_root
     \<and> getChild hot_root ''ghost'' = None
     \<and> namespaced_own (rawModule hot_root) = JBool True
     \<and> getters_own (rawModule hot_root) = None
     \<and> mutations_own (rawModule hot_root) = Some [(''inc'', JFun 31)]
     \<and> actions_own (rawModule hot_root) = Some [(''incAsync'', JFun 12)]
     \<and> (\<exists>c'. getChild hot_root ''user'' = Some c'
         \<and> namespaced_own (rawModule c') = JUndefined
         \<and> getters_own (rawModule c') = Some [(''upper'', JFun 34)]
         \<and> mutations_own (rawModule c') = Some [(''setName'', JFun 33)]
         \<and> actions_own (rawModule c') = None)
     \<and> getChild hot_root ''log'' = Some log_module"
    using hot_update_unknown_module [of True "[]" example_root hot_options "[]"
        "[(''user'', hot_user)]" "''ghost''"
        "RawModule JUndefined (StateValue JNull) None None None []"
        "[(''log'', RawModule (JBool True) (StateValue JNull) None None None [])]"
        "()" hot_root "[new_module_warning ''ghost'']"]
      run mods dist known unknown user log old old_user
    by auto
  show ?thesis using run unknown main by (simp add: ModuleCollection_update_def)
qed

text \<open>
  In a production build the same update stops at \<^verbatim>\<open>ghost\<close> as well, with the same tree,
  and the console is as empty as before: the branch is given up without a diagnostic.
\<close>

theorem hot_update_silent_counterexample:
  "getChild example_root ''ghost'' = None
   \<and> map fst (modules_raw hot_options) = [''user'', ''ghost'', ''log'']
   \<and> ModuleCollection_update False hot_options example_root [] = Return () (hot_root, [])"
  unfolding ModuleCollection_update_def hot_update_example
  by (simp add: getChild_def example_root_def hot_options_def)

section \<open>Facts about the store\<close>

text \<open>The example store is what the constructor builds from the example declaration.\<close>

lemma example_store_constructed: "new_Store True example_options = Return () example_store"
  unfolding new_Store_def example_root_constructed
  by (simp add: example_root_def user_module_def log_module_def example_options_def
      user_options_def log_options_def initial_store_def getNamespace_def namespaced_def
      getChild_def makeLocalContext_def table_entries_def registerMutation_def registerAction_def
      withCommit_def Vue_set_def read_prop_def Let_def example_store_def fun_upd_twist)

subsection \<open>Dispatch\<close>

lemma evaluate_w: "evaluate_identifier ''w'' = Some ReferenceError"
  by (simp add: evaluate_identifier_def dispatch_scope_def)

text \<open>Whatever is registered under the type, \<^verbatim>\<open>dispatch\<close> ends at the statement \<^verbatim>\<open>w;\<close>: no
  subscriber and no handler has been called (the store is unchanged) and no promise is
  returned.\<close>

lemma dispatch_registered_throws:
  assumes "actions s t = Some entry"
  shows "dispatch cb dev (JStr t) p s = Throw ReferenceError s"
  using assms by (simp add: dispatch_def unifyObjectStyle_def evaluate_w)

text \<open>
  C1. The claim is that \<^verbatim>\<open>dispatch\<close> of a type with registered handlers returns a promise
  that resolves to the handler's value, or to the list of the handlers' values. In the
  example store one handler is registered under \<^verbatim>\<open>incAsync\<close>; \<^verbatim>\<open>dispatch("incAsync", 1)\<close>
  throws a ReferenceError, calls nothing and returns no promise.
\<close>

theorem dispatch_throws_at_w:
  "actions example_store ''incAsync'' = Some [WrappedActionHandler (JFun 12) (LocalContext '''' [])]
   \<and> dispatch example_callbacks True (JStr ''incAsync'') (JNum 1) example_store
       = Throw ReferenceError example_store"
proof -
  have reg: "actions example_store ''incAsync'' =
      Some [WrappedActionHandler (JFun 12) (LocalContext '''' [])]"
    by (simp add: example_store_def)
  show ?thesis using reg dispatch_registered_throws [OF reg] by simp
qed

subsection \<open>The committing flag\<close>

text \<open>
  C8. \<^verbatim>\<open>_withCommit(fn)\<close> runs \<open>fn\<close> with \<^verbatim>\<open>_committing\<close> set to true, and when \<open>fn\<close> has
  returned the flag is again what it was before the call, not unconditionally false.
  So when a scope is entered inside another one and left again, what follows in the
  outer scope (\<open>rest\<close>) still runs with the flag true, and the outer scope restores the
  value from before it. (When \<open>fn\<close> throws, the assignment that restores the flag is not
  reached; the statement is about calls that return.)
\<close>

theorem withCommit_restores:
  "(fn (s\<lparr>committing := True\<rparr>) = Return x s1 \<longrightarrow>
       withCommit fn s = Return () (s1\<lparr>committing := committing s\<rparr>))
   \<and> (g (s\<lparr>committing := True\<rparr>) = Return y s2 \<longrightarrow>
       withCommit (\<lambda>outer. case withCommit g outer of
                              Throw e inner \<Rightarrow> Throw e inner
                            | Return u inner \<Rightarrow> rest inner) s
         = (case rest (s2\<lparr>committing := True\<rparr>) of
              Throw e s3 \<Rightarrow> Throw e s3
            | Return z s3 \<Rightarrow> Return () (s3\<lparr>committing := committing s\<rparr>)))"
  by (auto simp add: withCommit_def split: result.splits)

theorem withCommit_restores_witness:
  "committing example_store = False
   \<and> withCommit (\<lambda>s. Return (committing s) (s\<lparr>vm_state := JBool (committing s)\<rparr>)) example_store
       = Return () (example_store\<lparr>vm_state := JBool True\<rparr>)
   \<and> withCommit (\<lambda>outer. case withCommit (\<lambda>s. Return () s) outer of
                              Throw e inner \<Rightarrow> Throw e inner
                            | Return u inner \<Rightarrow> Return () (inner\<lparr>vm_state := JBool (committing inner)\<rparr>))
        example_store
       = Return () (example_store\<lparr>vm_state := JBool True\<rparr>)"
proof -
  have flag: "committing example_store = False" by (simp add: example_store_def)
  show ?thesis
    using withCommit_restores
      [of "\<lambda>s. Return (committing s) (s\<lparr>vm_state := JBool (committing s)\<rparr>)" example_store
          True "example_store\<lparr>committing := True, vm_state := JBool True\<rparr>"
          "\<lambda>s. Return () s" "()" "example_store\<lparr>committing := True\<rparr>"
          "\<lambda>inner. Return () (inner\<lparr>vm_state := JBool (committing inner)\<rparr>)"]
      flag
    by simp
qed

text \<open>When \<open>fn\<close> throws, the call ends there and the store keeps the flag as \<open>fn\<close> left
  it: the source has no \<^verbatim>\<open>finally\<close>.\<close>

lemma withCommit_throws:
  "fn (s\<lparr>committing := True\<rparr>) = Throw e s1 \<Longrightarrow> withCommit fn s = Throw e s1"
  by (simp add: withCommit_def)

subsection \<open>Commit\<close>

lemma call_mutation_Return:
  assumes "call_mutation cb h p s = Return u s'"
  shows "\<exists>ls. trace s' = trace s @ [Call (mutation_handler h) [ls, p]]
          \<and> subscribers s' = subscribers s \<and> committing s' = committing s
          \<and> mutations s' = mutations s"
  using assms
  by (auto simp add: call_mutation_def Let_def
      split: sum.splits prod.splits option.splits jsval.splits)

lemma commitIterator_Return:
  assumes "commitIterator cb entry p s = Return u s'"
  shows "\<exists>locals. length locals = length entry
          \<and> trace s' = trace s @ map2 (\<lambda>h ls. Call (mutation_handler h) [ls, p]) entry locals
          \<and> subscribers s' = subscribers s \<and> committing s' = committing s"
  using assms
proof (induction entry arbitrary: s)
  case Nil
  then show ?case by simp
next
  case (Cons h entry)
  from Cons.prems obtain u1 s1 where
    first: "call_mutation cb h p s = Return u1 s1"
    and rest: "commitIterator cb entry p s1 = Return u s'"
    by (auto split: result.splits)
  from call_mutation_Return [OF first] obtain ls where
    ls: "trace s1 = trace s @ [Call (mutation_handler h) [ls, p]]"
      "subscribers s1 = subscribers s" "committing s1 = committing s" by blast
  from Cons.IH [OF rest] obtain locals where
    locals: "length locals = length entry"
      "trace s' = trace s1 @ map2 (\<lambda>h ls. Call (mutation_handler h) [ls, p]) entry locals"
      "subscribers s' = subscribers s1" "committing s' = committing s1" by blast
  have "length (ls # locals) = length (h # entry)
          \<and> trace s' = trace s @ map2 (\<lambda>h ls. Call (mutation_handler h) [ls, p]) (h # entry) (ls # locals)
          \<and> subscribers s' = subscribers s \<and> committing s' = committing s"
    using ls locals by simp
  then show ?case by blast
qed

lemma notify_subscribers_Return:
  assumes "notify_subscribers cb subs m s = Return u s'"
  shows "s' = s\<lparr>trace := trace s @ map (\<lambda>sub. Call (JFun sub) [m, vm_state s]) subs\<rparr>"
  using assms
proof (induction subs arbitrary: s)
  case Nil
  then show ?case by simp
next
  case (Cons sub subs)
  let ?s1 = "s\<lparr>trace := trace s @ [Call (JFun sub) [m, vm_state s]]\<rparr>"
  from Cons.prems have rest: "notify_subscribers cb subs m ?s1 = Return u s'"
    by (auto simp add: Let_def split: option.splits)
  from Cons.IH [OF rest] show ?case by simp
qed

lemma commit_unknown_type:
  "mutations s t = None \<Longrightarrow> commit cb dev (JStr t) v options s = Return () s"
  by (simp add: commit_def unifyObjectStyle_def)

text \<open>
  C2. Let handlers be registered under the type \<open>t\<close> (\<open>entry\<close>, in the order in which
  \<^verbatim>\<open>registerMutation\<close> pushed them: it appends) and let \<^verbatim>\<open>commit(t, p)\<close> return. Then the calls
  it made are, in this order: every handler of \<open>entry\<close>, in registration order, each with
  the state of its module and the payload \<open>p\<close>; then every subscriber, in subscription
  order, each with the descriptor \<^verbatim>\<open>{type, payload}\<close> and the global state as the handlers
  left it (\<open>s1\<close> is the store after the last handler). No subscriber is called before the
  last handler has returned, and the committing flag is what it was.
\<close>

theorem commit_order:
  assumes "mutations s t = Some entry"
    and "commit cb dev (JStr t) p opts s = Return u s'"
  shows "(\<exists>locals s1.
           commitIterator cb entry p (s\<lparr>committing := True\<rparr>) = Return () s1
         \<and> length locals = length entry
         \<and> trace s' = trace s
             @ map2 (\<lambda>h ls. Call (mutation_handler h) [ls, p]) entry locals
             @ map (\<lambda>sub. Call (JFun sub) [JObj [(''type'', JStr t), (''payload'', p)], vm_state s1])
                 (subscribers s)
         \<and> vm_state s' = vm_state s1
         \<and> committing s' = committing s)
       \<and> mutations (registerMutation t h local s) t = Some (entry @ [WrappedMutationHandler h local])"
proof -
  let ?m = "JObj [(''type'', JStr t), (''payload'', p)]"
  from assms obtain s1 where
    run: "commitIterator cb entry p (s\<lparr>committing := True\<rparr>) = Return () s1"
    and notified: "notify_subscribers cb (subscribers (s1\<lparr>committing := committing s\<rparr>)) ?m
                 (s1\<lparr>committing := committing s\<rparr>) = Return u s'"
    by (auto simp add: commit_def unifyObjectStyle_def withCommit_def Let_def split: result.splits)
  from commitIterator_Return [OF run] obtain locals where
    locals: "length locals = length entry"
      "trace s1 = trace s @ map2 (\<lambda>h ls. Call (mutation_handler h) [ls, p]) entry locals"
      "subscribers s1 = subscribers s" by auto
  from notify_subscribers_Return [OF notified] have
    n: "s' = s1\<lparr>committing := committing s,
                 trace := trace s1 @ map (\<lambda>sub. Call (JFun sub) [?m, vm_state s1]) (subscribers s)\<rparr>"
    using locals(3) by simp
  have "vm_state s' = vm_state s1" "committing s' = committing s"
    "trace s' = trace s1 @ map (\<lambda>sub. Call (JFun sub) [?m, vm_state s1]) (subscribers s)"
    by (simp_all add: n)
  then have calls: "\<exists>locals s1.
           commitIterator cb entry p (s\<lparr>committing := True\<rparr>) = Return () s1
         \<and> length locals = length entry
         \<and> trace s' = trace s
             @ map2 (\<lambda>h ls. Call (mutation_handler h) [ls, p]) entry locals
             @ map (\<lambda>sub. Call (JFun sub) [?m, vm_state s1]) (subscribers s)
         \<and> vm_state s' = vm_state s1
         \<and> committing s' = committing s"
    using run locals by auto
  have reg: "mutations (registerMutation t h local s) t = Some (entry @ [WrappedMutationHandler h local])"
    using assms(1) by (simp add: registerMutation_def)
  show ?thesis using calls reg by blast
qed

lemma subscribed_store_subscribers: "subscribers subscribed_store = [41, 42]"
  by (simp add: subscribed_store_def subscribe_def genericSubscribe_def example_store_def Let_def)

lemma subscribed_store_inc:
  "mutations subscribed_store ''inc'' =
     Some [WrappedMutationHandler (JFun 11) (LocalContext '''' []),
           WrappedMutationHandler (JFun 14) (LocalContext '''' [''log''])]"
  by (simp add: subscribed_store_def subscribe_def example_store_def)

lemma subscribed_store_fields:
  "vm_state subscribed_store =
     JObj [(''count'', JNum 0), (''user'', JObj [(''name'', JStr '''')]), (''log'', JObj [])]"
  "trace subscribed_store = []"
  "committing subscribed_store = False"
  by (simp_all add: subscribed_store_def subscribe_def example_store_def)

lemma commit_example:
  "commit example_callbacks True (JStr ''inc'') (JNum 5) JUndefined subscribed_store =
     Return ()
       (subscribed_store
          \<lparr>vm_state := JObj [(''count'', JNum 0), (''user'', JObj [(''name'', JStr '''')]),
                            (''log'', JObj [(''last'', JNum 5)]), (''last'', JNum 5)],
           trace :=
             [Call (JFun 11) [JObj [(''count'', JNum 0), (''user'', JObj [(''name'', JStr '''')]),
                                    (''log'', JObj [])], JNum 5],
              Call (JFun 14) [JObj [], JNum 5],
              Call (JFun 41) [JObj [(''type'', JStr ''inc''), (''payload'', JNum 5)],
                              JObj [(''count'', JNum 0), (''user'', JObj [(''name'', JStr '''')]),
                                    (''log'', JObj [(''last'', JNum 5)]), (''last'', JNum 5)]],
              Call (JFun 42) [JObj [(''type'', JStr ''inc''), (''payload'', JNum 5)],
                              JObj [(''count'', JNum 0), (''user'', JObj [(''name'', JStr '''')]),
                                    (''log'', JObj [(''last'', JNum 5)]), (''last'', JNum 5)]]]\<rparr>)"
  by (simp add: commit_def unifyObjectStyle_def subscribed_store_inc withCommit_def
      call_mutation_def subscribed_store_fields subscribed_store_subscribers
      example_callbacks_def Let_def)

theorem commit_order_witness:
  "mutations subscribed_store ''inc'' =
     Some [WrappedMutationHandler (JFun 11) (LocalContext '''' []),
           WrappedMutationHandler (JFun 14) (LocalContext '''' [''log''])]
   \<and> subscribers subscribed_store = [41, 42]
   \<and> commit example_callbacks True (JStr ''inc'') (JNum 5) JUndefined subscribed_store
       = Return () committed_store
   \<and> trace committed_store =
       [Call (JFun 11) [JObj [(''count'', JNum 0), (''user'', JObj [(''name'', JStr '''')]),
                              (''log'', JObj [])], JNum 5],
        Call (JFun 14) [JObj [], JNum 5],
        Call (JFun 41) [JObj [(''type'', JStr ''inc''), (''payload'', JNum 5)], vm_state committed_store],
        Call (JFun 42) [JObj [(''type'', JStr ''inc''), (''payload'', JNum 5)], vm_state committed_store]]
   \<and> vm_state committed_store =
       JObj [(''count'', JNum 0), (''user'', JObj [(''name'', JStr '''')]),
             (''log'', JObj [(''last'', JNum 5)]), (''last'', JNum 5)]
   \<and> committing committed_store = committing subscribed_store
   \<and> mutations (registerMutation ''inc'' (JFun 15) (LocalContext '''' [''user'']) subscribed_store) ''inc'' =
       Some [WrappedMutationHandler (JFun 11) (LocalContext '''' []),
             WrappedMutationHandler (JFun 14) (LocalContext '''' [''log'']),
             WrappedMutationHandler (JFun 15) (LocalContext '''' [''user''])]"
proof -
  have run: "commit example_callbacks True (JStr ''inc'') (JNum 5) JUndefined subscribed_store
       = Return () committed_store"
    by (simp add: committed_store_def commit_example)
  have after: "trace committed_store =
       [Call (JFun 11) [JObj [(''count'', JNum 0), (''user'', JObj [(''name'', JStr '''')]),
                              (''log'', JObj [])], JNum 5],
        Call (JFun 14) [JObj [], JNum 5],
        Call (JFun 41) [JObj [(''type'', JStr ''inc''), (''payload'', JNum 5)], vm_state committed_store],
        Call (JFun 42) [JObj [(''type'', JStr ''inc''), (''payload'', JNum 5)], vm_state committed_store]]"
    "vm_state committed_store =
       JObj [(''count'', JNum 0), (''user'', JObj [(''name'', JStr '''')]),
             (''log'', JObj [(''last'', JNum 5)]), (''last'', JNum 5)]"
    by (simp_all add: committed_store_def commit_example)
  from commit_order [OF subscribed_store_inc run, of "JFun 15" "LocalContext '''' [''user'']"]
  have flag: "committing committed_store = committing subscribed_store"
    and reg: "mutations (registerMutation ''inc'' (JFun 15) (LocalContext '''' [''user'']) subscribed_store) ''inc'' =
       Some [WrappedMutationHandler (JFun 11) (LocalContext '''' []),
             WrappedMutationHandler (JFun 14) (LocalContext '''' [''log'']),
             WrappedMutationHandler (JFun 15) (LocalContext '''' [''user''])]"
    by auto
  show ?thesis
    using subscribed_store_inc subscribed_store_subscribers run after flag reg by simp
qed

subsection \<open>Subscriptions\<close>

lemma indexOf_ge: "- 1 \<le> indexOf x xs"
  by (induction xs) (auto simp add: Let_def)

lemma indexOf_negative: "indexOf x xs < 0 \<longleftrightarrow> x \<notin> set xs"
  using indexOf_ge [of x] by (induction xs) (auto simp add: Let_def)

lemma unsubscribe_remove1: "unsubscribe x xs = remove1 x xs"
proof (induction xs)
  case Nil
  then show ?case by (simp add: unsubscribe_def)
next
  case (Cons y ys)
  show ?case
  proof (cases "x = y")
    case True
    then show ?thesis by (simp add: unsubscribe_def)
  next
    case False
    show ?thesis
    proof (cases "x \<in> set ys")
      case True
      then have i: "0 \<le> indexOf x ys" using indexOf_negative [of x ys] by simp
      then have "nat (indexOf x ys + 1) = Suc (nat (indexOf x ys))" by simp
      then show ?thesis using Cons False i by (simp add: unsubscribe_def Let_def)
    next
      case notin: False
      then have "indexOf x ys < 0" by (simp add: indexOf_negative)
      then show ?thesis using False notin by (simp add: unsubscribe_def Let_def remove1_idem)
    qed
  qed
qed

lemma genericSubscribe_set:
  "genericSubscribe fn subs options =
     (if fn \<in> set subs then subs
      else if prepend_option options then fn # subs else subs @ [fn])"
  by (simp add: genericSubscribe_def indexOf_negative prepend_option_def)

lemma genericSubscribe_distinct:
  "distinct subs \<Longrightarrow> distinct (genericSubscribe fn subs options)"
  by (simp add: genericSubscribe_set)

lemma unsubscribe_after_subscribe:
  "distinct subs \<Longrightarrow> unsubscribe fn (genericSubscribe fn subs options) = removeAll fn subs"
  by (auto simp add: genericSubscribe_set unsubscribe_remove1 distinct_remove1_removeAll remove1_append)

text \<open>
  C7, as the code has it. \<^verbatim>\<open>subscribe(fn, options)\<close> leaves the list as it is when \<open>fn\<close> is
  already in it, and otherwise puts \<open>fn\<close> first when \<^verbatim>\<open>options.prepend\<close> is set and last when
  not; \<^verbatim>\<open>subscribeAction\<close> does the same with a subscriber object. The lists the store
  builds this way have no entry twice, and then calling the returned function removes
  the entry: the list is the old one without \<open>fn\<close>. A function given to
  \<^verbatim>\<open>subscribeAction\<close> is first wrapped in a new object \<^verbatim>\<open>{ before: fn }\<close>, and the guard
  compares that object with the list: every such call adds one entry, also when the same
  function is already subscribed, and the function it returns removes the entry of its
  own call and no other.
\<close>

theorem subscribe_entries:
  "subscribers (snd (subscribe fn options s)) =
       (if fn \<in> set (subscribers s) then subscribers s
        else if prepend_option options then fn # subscribers s else subscribers s @ [fn])
   \<and> actionSubscribers (snd (subscribeAction (SubscribeObject ob) options s)) =
       (if ob \<in> set (actionSubscribers s) then actionSubscribers s
        else if prepend_option options then ob # actionSubscribers s else actionSubscribers s @ [ob])
   \<and> (next_ref s \<notin> set (actionSubscribers s) \<longrightarrow>
        fst (subscribeAction (SubscribeFunction f) options s) = next_ref s
      \<and> heap (snd (subscribeAction (SubscribeFunction f) options s)) (next_ref s)
          = Some (ActionSubscriber (Some f) None None)
      \<and> actionSubscribers (snd (subscribeAction (SubscribeFunction f) options s)) =
          (if prepend_option options then next_ref s # actionSubscribers s
           else actionSubscribers s @ [next_ref s])
      \<and> actionSubscribers (unsubscribe_action (fst (subscribeAction (SubscribeFunction f) options s))
            (snd (subscribeAction (SubscribeFunction f) options s))) = actionSubscribers s)
   \<and> (distinct (subscribers s) \<longrightarrow>
        distinct (subscribers (snd (subscribe fn options s)))
      \<and> subscribers (unsubscribe_mutation (fst (subscribe fn options s)) (snd (subscribe fn options s)))
          = removeAll fn (subscribers s))
   \<and> (distinct (actionSubscribers s) \<longrightarrow>
        distinct (actionSubscribers (snd (subscribeAction (SubscribeObject ob) options s)))
      \<and> actionSubscribers (unsubscribe_action (fst (subscribeAction (SubscribeObject ob) options s))
            (snd (subscribeAction (SubscribeObject ob) options s)))
          = removeAll ob (actionSubscribers s))"
  by (auto simp add: subscribe_def subscribeAction_def unsubscribe_mutation_def unsubscribe_action_def
      genericSubscribe_set genericSubscribe_distinct unsubscribe_after_subscribe Let_def
      unsubscribe_remove1 remove1_append distinct_remove1_removeAll)

theorem subscribe_entries_witness:
  "subscribers subscribed_store = [41, 42]
   \<and> subscribers (snd (subscribe 43 (JObj [(''prepend'', JBool True)]) subscribed_store)) = [43, 41, 42]
   \<and> subscribers (snd (subscribe 43 JUndefined subscribed_store)) = [41, 42, 43]
   \<and> subscribers (snd (subscribe 41 JUndefined subscribed_store)) = [41, 42]
   \<and> subscribers (unsubscribe_mutation (fst (subscribe 41 JUndefined subscribed_store))
        (snd (subscribe 41 JUndefined subscribed_store))) = [42]
   \<and> actionSubscribers (snd (subscribeAction (SubscribeFunction 61) JUndefined example_store)) = [0]
   \<and> actionSubscribers (unsubscribe_action
        (fst (subscribeAction (SubscribeFunction 61) JUndefined example_store))
        (snd (subscribeAction (SubscribeFunction 61) JUndefined example_store))) = []"
proof -
  have p: "prepend_option (JObj [(''prepend'', JBool True)])" "\<not> prepend_option JUndefined"
    by (simp_all add: prepend_option_def read_prop_def)
  have fresh: "next_ref example_store = 0" "actionSubscribers example_store = []"
    by (simp_all add: example_store_def)
  have d: "distinct (subscribers subscribed_store)"
    by (simp add: subscribed_store_subscribers)
  from subscribe_entries [of 43 "JObj [(''prepend'', JBool True)]" subscribed_store 0 61]
  have first: "subscribers (snd (subscribe 43 (JObj [(''prepend'', JBool True)]) subscribed_store))
      = [43, 41, 42]"
    using p(1) by (simp add: subscribed_store_subscribers)
  from subscribe_entries [of 43 JUndefined subscribed_store 0 61]
  have last: "subscribers (snd (subscribe 43 JUndefined subscribed_store)) = [41, 42, 43]"
    using p(2) by (simp add: subscribed_store_subscribers)
  from subscribe_entries [of 41 JUndefined subscribed_store 0 61]
  have again: "subscribers (snd (subscribe 41 JUndefined subscribed_store)) = [41, 42]"
    and gone: "subscribers (unsubscribe_mutation (fst (subscribe 41 JUndefined subscribed_store))
        (snd (subscribe 41 JUndefined subscribed_store))) = [42]"
    using d by (simp_all add: subscribed_store_subscribers)
  from subscribe_entries [of 41 JUndefined example_store 0 61]
  have wrapped: "actionSubscribers (snd (subscribeAction (SubscribeFunction 61) JUndefined example_store)) = [0]"
    and unwrapped: "actionSubscribers (unsubscribe_action
        (fst (subscribeAction (SubscribeFunction 61) JUndefined example_store))
        (snd (subscribeAction (SubscribeFunction 61) JUndefined example_store))) = []"
    using p(2) fresh by auto
  show ?thesis
    using subscribed_store_subscribers first last again gone wrapped unwrapped by simp
qed

text \<open>The statement of C7 fails for a function given to \<^verbatim>\<open>subscribeAction\<close>: after two calls
  with the same function the list has two entries, both wrapping it, and after the first
  call's unsubscribe the function is still a \<^verbatim>\<open>before\<close> subscriber.\<close>

theorem subscribeAction_twice_counterexample:
  "actionSubscribers twice_subscribed = [0, 1]
   \<and> heap twice_subscribed 0 = Some (ActionSubscriber (Some 61) None None)
   \<and> heap twice_subscribed 1 = Some (ActionSubscriber (Some 61) None None)
   \<and> subscribers_with sub_before twice_subscribed = [61, 61]
   \<and> fst (subscribeAction (SubscribeFunction 61) JUndefined example_store) = 0
   \<and> subscribers_with sub_before (unsubscribe_action 0 twice_subscribed) = [61]"
  by (simp add: twice_subscribed_def subscribeAction_def genericSubscribe_def unsubscribe_action_def
      unsubscribe_def subscribers_with_def example_store_def Let_def List.map_filter_def)

subsection \<open>The local context\<close>

text \<open>
  C9. In the local context of a module with namespace \<open>ns\<close> (for the claim:
  \<^verbatim>\<open>"user/"\<close>, at path \<^verbatim>\<open>["user"]\<close>), \<^verbatim>\<open>commit(t, v, options)\<close> without a true \<^verbatim>\<open>options.root\<close> is
  the store's \<^verbatim>\<open>commit(ns + t, v, options)\<close>: the two calls end alike and leave the same
  store, with the same handler calls and subscriber notifications in its trace. With
  \<^verbatim>\<open>options.root\<close> true the type goes to the store's \<^verbatim>\<open>commit\<close> without the prefix.
\<close>

theorem local_commit_namespaced:
  "(\<not> (truthy options \<and> truthy (read_prop options ''root'')) \<longrightarrow>
      local_commit cb dev (makeLocalContext ns path) (JStr t) v options s
        = commit cb dev (JStr (ns @ t)) v options s)
   \<and> (truthy options \<and> truthy (read_prop options ''root'') \<longrightarrow>
      local_commit cb dev (makeLocalContext ns path) (JStr t) v options s
        = commit cb dev (JStr t) v options s)"
  by (simp add: local_commit_def makeLocalContext_def unifyObjectStyle_def Let_def
      commit_unknown_type)

theorem local_commit_namespaced_witness:
  "getNamespace example_root [''user''] = Inr ''user/''
   \<and> local_commit example_callbacks True (makeLocalContext ''user/'' [''user''])
        (JStr ''setName'') (JStr ''Ann'') JUndefined example_store
       = commit example_callbacks True (JStr ''user/setName'') (JStr ''Ann'') JUndefined example_store
   \<and> commit example_callbacks True (JStr ''user/setName'') (JStr ''Ann'') JUndefined example_store
       = Return ()
           (example_store
              \<lparr>vm_state := JObj [(''count'', JNum 0),
                                (''user'', JObj [(''name'', JStr ''''), (''last'', JStr ''Ann'')]),
                                (''log'', JObj [])],
               trace := [Call (JFun 13) [JObj [(''name'', JStr '''')], JStr ''Ann'']]\<rparr>)
   \<and> local_commit example_callbacks True (makeLocalContext ''user/'' [''user''])
        (JStr ''inc'') (JNum 5) (JObj [(''root'', JBool True)]) example_store
       = commit example_callbacks True (JStr ''inc'') (JNum 5) (JObj [(''root'', JBool True)]) example_store"
proof -
  have ns: "getNamespace example_root [''user''] = Inr ''user/''"
    by (simp add: getNamespace_def getChild_def example_root_def namespaced_def user_module_def
        user_options_def)
  have run: "commit example_callbacks True (JStr ''user/setName'') (JStr ''Ann'') JUndefined example_store
       = Return ()
           (example_store
              \<lparr>vm_state := JObj [(''count'', JNum 0),
                                (''user'', JObj [(''name'', JStr ''''), (''last'', JStr ''Ann'')]),
                                (''log'', JObj [])],
               trace := [Call (JFun 13) [JObj [(''name'', JStr '''')], JStr ''Ann'']]\<rparr>)"
    by (simp add: commit_def unifyObjectStyle_def withCommit_def call_mutation_def
        example_store_def example_callbacks_def Let_def)
  have root: "truthy (JObj [(''root'', JBool True)])
      \<and> truthy (read_prop (JObj [(''root'', JBool True)]) ''root'')"
    by (simp add: read_prop_def)
  show ?thesis
    using local_commit_namespaced [of JUndefined example_callbacks True "''user/''" "[''user'']"
        "''setName''" "JStr ''Ann''" example_store]
      local_commit_namespaced [of "JObj [(''root'', JBool True)]" example_callbacks True "''user/''"
        "[''user'']" "''inc''" "JNum 5" example_store]
      ns run root
    by simp
qed

subsection \<open>Object-style calls\<close>

lemma commit_calls:
  assumes "mutations s t = Some entry"
    and "commit cb dev (JStr t) p opts s = Return u s'"
  shows "\<exists>locals. length locals = length entry
         \<and> trace s' = trace s
             @ map2 (\<lambda>h ls. Call (mutation_handler h) [ls, p]) entry locals
             @ map (\<lambda>sub. Call (JFun sub) [JObj [(''type'', JStr t), (''payload'', p)], vm_state s'])
                 (subscribers s)"
proof -
  let ?m = "JObj [(''type'', JStr t), (''payload'', p)]"
  from assms obtain s1 where
    run: "commitIterator cb entry p (s\<lparr>committing := True\<rparr>) = Return () s1"
    and notified: "notify_subscribers cb (subscribers (s1\<lparr>committing := committing s\<rparr>)) ?m
                 (s1\<lparr>committing := committing s\<rparr>) = Return u s'"
    by (auto simp add: commit_def unifyObjectStyle_def withCommit_def Let_def split: result.splits)
  from commitIterator_Return [OF run] obtain locals where
    locals: "length locals = length entry"
      "trace s1 = trace s @ map2 (\<lambda>h ls. Call (mutation_handler h) [ls, p]) entry locals"
      "subscribers s1 = subscribers s" by auto
  from notify_subscribers_Return [OF notified] have
    n: "s' = s1\<lparr>committing := committing s,
                 trace := trace s1 @ map (\<lambda>sub. Call (JFun sub) [?m, vm_state s1]) (subscribers s)\<rparr>"
    using locals(3) by simp
  have "vm_state s' = vm_state s1"
    "trace s' = trace s1 @ map (\<lambda>sub. Call (JFun sub) [?m, vm_state s1]) (subscribers s)"
    by (simp_all add: n)
  then show ?thesis using locals by auto
qed

text \<open>
  C10, as the code has it. Let \<open>obj\<close> be an object whose \<^verbatim>\<open>type\<close> field is a non-empty
  string \<open>t\<close>. Then \<^verbatim>\<open>commit(obj, second, third)\<close> is \<^verbatim>\<open>commit(t, obj, second)\<close>: the whole
  object, its \<^verbatim>\<open>type\<close> field included, is the payload, the second argument is the options
  and the third is dropped. When handlers are registered under \<open>t\<close> and the call returns,
  every one of them was called with \<open>obj\<close> as payload, and every subscriber afterwards with
  the descriptor whose payload is \<open>obj\<close>.
\<close>

theorem commit_object_style:
  assumes "map_of fs ''type'' = Some (JStr t)" and "t \<noteq> []"
  shows "unifyObjectStyle dev (JObj fs) second third = Inr (JStr t, JObj fs, second)
       \<and> commit cb dev (JObj fs) second third s = commit cb dev (JStr t) (JObj fs) second s
       \<and> (mutations s t = Some entry \<and> commit cb dev (JObj fs) second third s = Return u s' \<longrightarrow>
            (\<exists>locals. length locals = length entry
               \<and> trace s' = trace s
                   @ map2 (\<lambda>h ls. Call (mutation_handler h) [ls, JObj fs]) entry locals
                   @ map (\<lambda>sub. Call (JFun sub)
                                   [JObj [(''type'', JStr t), (''payload'', JObj fs)], vm_state s'])
                       (subscribers s)))"
proof -
  have unify: "unifyObjectStyle dev (JObj fs) second third = Inr (JStr t, JObj fs, second)"
    using assms by (simp add: unifyObjectStyle_def read_prop_def)
  have same: "commit cb dev (JObj fs) second third s = commit cb dev (JStr t) (JObj fs) second s"
    using assms by (simp add: unifyObjectStyle_def commit_def read_prop_def)
  show ?thesis using unify same commit_calls [of s t entry cb dev "JObj fs" second u s'] by simp
qed

theorem commit_object_style_witness:
  "unifyObjectStyle True (JObj [(''type'', JStr ''inc''), (''amount'', JNum 5)])
       (JObj [(''silent'', JBool True)]) JNull
     = Inr (JStr ''inc'', JObj [(''type'', JStr ''inc''), (''amount'', JNum 5)],
            JObj [(''silent'', JBool True)])
   \<and> commit example_callbacks True (JObj [(''type'', JStr ''inc''), (''amount'', JNum 5)])
        (JObj [(''silent'', JBool True)]) JNull subscribed_store
     = commit example_callbacks True (JStr ''inc'')
        (JObj [(''type'', JStr ''inc''), (''amount'', JNum 5)]) (JObj [(''silent'', JBool True)])
        subscribed_store
   \<and> map (\<lambda>e. case e of Call f args \<Rightarrow> (f, last args))
        (take 2 (trace (result_state
           (commit example_callbacks True (JObj [(''type'', JStr ''inc''), (''amount'', JNum 5)])
              (JObj [(''silent'', JBool True)]) JNull subscribed_store))))
     = [(JFun 11, JObj [(''type'', JStr ''inc''), (''amount'', JNum 5)]),
        (JFun 14, JObj [(''type'', JStr ''inc''), (''amount'', JNum 5)])]"
proof -
  have t: "map_of [(''type'', JStr ''inc''), (''amount'', JNum 5)] ''type'' = Some (JStr ''inc'')"
    "''inc'' \<noteq> []"
    by simp_all
  have run: "map (\<lambda>e. case e of Call f args \<Rightarrow> (f, last args))
        (take 2 (trace (result_state
           (commit example_callbacks True (JStr ''inc'')
              (JObj [(''type'', JStr ''inc''), (''amount'', JNum 5)])
              (JObj [(''silent'', JBool True)]) subscribed_store))))
     = [(JFun 11, JObj [(''type'', JStr ''inc''), (''amount'', JNum 5)]),
        (JFun 14, JObj [(''type'', JStr ''inc''), (''amount'', JNum 5)])]"
    by (simp add: commit_def unifyObjectStyle_def subscribed_store_inc withCommit_def
        call_mutation_def subscribed_store_fields subscribed_store_subscribers
        example_callbacks_def Let_def)
  show ?thesis
    using commit_object_style [OF t, of True "JObj [(''silent'', JBool True)]" JNull
        example_callbacks subscribed_store] run
    by simp
qed

text \<open>The statement of C10 fails in two places. An object whose \<^verbatim>\<open>type\<close> is the empty string
  is not taken as an object-style call: with a handler registered under the empty type,
  \<^verbatim>\<open>commit({type: ""})\<close> calls nothing in a production build and fails the assertion in a
  development build. And \<^verbatim>\<open>dispatch\<close> of an object whose type has a handler throws at
  \<^verbatim>\<open>w;\<close> before any handler or subscriber sees the payload.\<close>

lemma unnamed_store_fields:
  "mutations unnamed_store '''' = Some [WrappedMutationHandler (JFun 51) (LocalContext '''' [])]"
  "mutations unnamed_store ''[object Object]'' = None"
  "subscribers unnamed_store = [52]"
  "trace unnamed_store = []"
  by (simp_all add: unnamed_store_def subscribe_def genericSubscribe_def new_Store_def
      new_ModuleCollection_def unnamed_options_def assertRawModule_def assert_table_def
      new_Module_def initial_state_def initial_store_def getNamespace_def namespaced_def
      makeLocalContext_def table_entries_def registerMutation_def Let_def)

theorem object_style_counterexample:
  "mutations unnamed_store '''' = Some [WrappedMutationHandler (JFun 51) (LocalContext '''' [])]
   \<and> subscribers unnamed_store = [52]
   \<and> commit example_callbacks False (JObj [(''type'', JStr '''')]) JUndefined JUndefined unnamed_store
       = Return () unnamed_store
   \<and> trace unnamed_store = []
   \<and> commit example_callbacks True (JObj [(''type'', JStr '''')]) JUndefined JUndefined unnamed_store
       = Throw AssertionError unnamed_store
   \<and> dispatch example_callbacks True (JObj [(''type'', JStr ''incAsync''), (''amount'', JNum 5)])
        JUndefined example_store
       = Throw ReferenceError example_store"
proof -
  have prod: "commit example_callbacks False (JObj [(''type'', JStr '''')]) JUndefined JUndefined
      unnamed_store = Return () unnamed_store"
    by (simp add: commit_def unifyObjectStyle_def read_prop_def unnamed_store_fields)
  have dev: "commit example_callbacks True (JObj [(''type'', JStr '''')]) JUndefined JUndefined
      unnamed_store = Throw AssertionError unnamed_store"
    by (simp add: commit_def unifyObjectStyle_def read_prop_def)
  have disp: "dispatch example_callbacks True (JObj [(''type'', JStr ''incAsync''), (''amount'', JNum 5)])
        JUndefined example_store = Throw ReferenceError example_store"
    by (simp add: dispatch_def unifyObjectStyle_def read_prop_def evaluate_w example_store_def)
  show ?thesis using prod dev disp by (simp add: unnamed_store_fields)
qed

subsection \<open>The unreachable part of dispatch\<close>

text \<open>
  The statements after \<^verbatim>\<open>w;\<close> are written to do what C1 describes. Were they reached with
  handlers whose promises all resolve, the returned promise would resolve to the value of
  the handler when it is the only one, and to the list of the values in registration
  order when there are several.
\<close>

lemma notify_action_subscribers_fields:
  "vm_state (notify_action_subscribers cb fs args s) = vm_state s
   \<and> heap (notify_action_subscribers cb fs args s) = heap s
   \<and> actionSubscribers (notify_action_subscribers cb fs args s) = actionSubscribers s"
  by (induction fs arbitrary: s) (auto simp add: Let_def split: option.splits)

lemma call_action_resolves:
  assumes "handler_resolves cb (vm_state s) p h v"
  shows "\<exists>s'. call_action cb h p s = Return (Fulfilled v) s' \<and> vm_state s' = vm_state s"
  using assms
  by (auto simp add: handler_resolves_def call_action_def Let_def split: jsval.splits sum.splits)

lemma map_actions_resolve:
  assumes "list_all2 (handler_resolves cb (vm_state s) p) entry vs"
  shows "\<exists>s'. map_actions cb entry p s = Return (map Fulfilled vs) s' \<and> vm_state s' = vm_state s"
  using assms
proof (induction entry arbitrary: vs s)
  case Nil
  then show ?case by simp
next
  case (Cons h entry)
  then obtain v vs' where vs: "vs = v # vs'" "handler_resolves cb (vm_state s) p h v"
    "list_all2 (handler_resolves cb (vm_state s) p) entry vs'"
    by (auto simp add: list_all2_Cons1)
  from call_action_resolves [OF vs(2)] obtain s1 where
    s1: "call_action cb h p s = Return (Fulfilled v) s1" "vm_state s1 = vm_state s" by blast
  have "list_all2 (handler_resolves cb (vm_state s1) p) entry vs'" using vs(3) s1(2) by simp
  from Cons.IH [OF this] obtain s2 where
    "map_actions cb entry p s1 = Return (map Fulfilled vs') s2" "vm_state s2 = vm_state s1" by blast
  then show ?case using s1 vs(1) by simp
qed

lemma promise_all_fulfilled: "promise_all (map Fulfilled vs) = Inl vs"
  by (induction vs) simp_all

lemma dispatch_rest_resolves:
  assumes "list_all2 (handler_resolves cb (vm_state s) p) entry vs" and "entry \<noteq> []"
  shows "\<exists>s'. dispatch_rest cb action entry p s =
           Return (Some (Resolves (if length entry = 1 then Single (hd vs) else Listed vs))) s'"
proof -
  let ?s1 = "notify_action_subscribers cb (subscribers_with sub_before s) [action, vm_state s] s"
  have st: "vm_state ?s1 = vm_state s" by (simp add: notify_action_subscribers_fields)
  have all: "list_all2 (handler_resolves cb (vm_state ?s1) p) entry vs" using assms(1) st by simp
  show ?thesis
  proof (cases "length entry > 1")
    case True
    from map_actions_resolve [OF all] obtain s2 where
      "map_actions cb entry p ?s1 = Return (map Fulfilled vs) s2" by blast
    then show ?thesis using True by (simp add: dispatch_rest_def Let_def promise_all_fulfilled)
  next
    case False
    then obtain h where h: "entry = [h]" using assms(2) by (cases entry) auto
    then obtain v where v: "vs = [v]" "handler_resolves cb (vm_state ?s1) p h v"
      using all by (auto simp add: list_all2_Cons1)
    from call_action_resolves [OF v(2)] obtain s2 where
      "call_action cb h p ?s1 = Return (Fulfilled v) s2" by blast
    then show ?thesis using h v(1) by (simp add: dispatch_rest_def Let_def)
  qed
qed

lemma dispatch_rest_example:
  "\<exists>s'. dispatch_rest example_callbacks (JObj [(''type'', JStr ''incAsync''), (''payload'', JNum 1)])
          [WrappedActionHandler (JFun 12) (LocalContext '''' [])] (JNum 1) example_store
        = Return (Some (Resolves (Single (JNum 1)))) s'"
proof -
  have "list_all2 (handler_resolves example_callbacks (vm_state example_store) (JNum 1))
          [WrappedActionHandler (JFun 12) (LocalContext '''' [])] [JNum 1]"
    by (simp add: handler_resolves_def example_callbacks_def)
  from dispatch_rest_resolves [OF this] show ?thesis by simp
qed

end
